theory Spec2Isabelle
  imports Complex_Main
begin

section \<open>Retro Arcade Adventure: the gameplay loop of game.js\<close>

text \<open>
  The embedding follows \<^verbatim>\<open>src/game.js\<close>: the constants \<^verbatim>\<open>GAME_CONSTANTS\<close>, the
  session object \<^verbatim>\<open>gameState\<close>, the factory \<^verbatim>\<open>GameFactory\<close>, the scene functions
  \<^verbatim>\<open>create\<close>, \<^verbatim>\<open>returnToStartScreen\<close>, \<^verbatim>\<open>startActualGame\<close> and the per-frame
  \<^verbatim>\<open>update\<close>.

  Conventions of the model:
  \<^item> JavaScript numbers are real numbers (rounding of doubles is not modelled); the
    counters \<^verbatim>\<open>score\<close>, \<^verbatim>\<open>health\<close>, \<^verbatim>\<open>round\<close>, \<^verbatim>\<open>enemySpeed\<close>,
    \<^verbatim>\<open>moveCounter\<close> and \<^verbatim>\<open>moveDirection\<close> only ever hold integers and are \<open>int\<close>.
  \<^item> The state is the one after \<^verbatim>\<open>create()\<close> has run: \<^verbatim>\<open>gameState.player\<close>,
    \<^verbatim>\<open>gameState.enemies\<close>, \<^verbatim>\<open>gameState.collectibles\<close>, \<^verbatim>\<open>gameState.cursors\<close> and
    the HUD texts are objects, so the source's null guards on them are true.
  \<^item> A Phaser group (version 3.55.2, as the README states) keeps its children in an
    array; \<^verbatim>\<open>getChildren()\<close> returns that very array, \<^verbatim>\<open>add\<close> appends to it,
    \<^verbatim>\<open>remove\<close> splices the child out of it, \<^verbatim>\<open>getLength()\<close> is its length and
    \<^verbatim>\<open>setVisible(v)\<close> sets the flag of every child. A group is a list.
  \<^item> \<^verbatim>\<open>scene.add.sprite\<close> gives a sprite that is visible (Phaser's default) and
    does not throw, so the factory's \<^verbatim>\<open>catch\<close> branch (result \<^verbatim>\<open>null\<close>) is the
    \<open>None\<close> that no call produces.
  \<^item> Random numbers come from a stream of draws \<open>rnd\<close>, read at position \<open>draws\<close>.
  \<^item> Sounds, texts and timers are presentation; the calls that matter are logged in
    \<open>events\<close>.
\<close>

subsection \<open>GAME_CONSTANTS\<close>

definition WIDTH :: int where "WIDTH = 800"
definition HEIGHT :: int where "HEIGHT = 600"
definition PLAYER_SPEED :: int where "PLAYER_SPEED = 5"
definition ENEMY_SPEED :: int where "ENEMY_SPEED = 4"
definition ENEMY_COUNT :: nat where "ENEMY_COUNT = 5"
definition COLLECTIBLE_COUNT :: nat where "COLLECTIBLE_COUNT = 10"
definition PLAYER_SIZE :: int where "PLAYER_SIZE = 32"
definition ENEMY_SIZE :: int where "ENEMY_SIZE = 48"
definition COLLECTIBLE_SIZE :: int where "COLLECTIBLE_SIZE = 32"
definition SCORE_PER_COLLECTIBLE :: int where "SCORE_PER_COLLECTIBLE = 10"
definition DAMAGE_PER_ENEMY :: int where "DAMAGE_PER_ENEMY = 10"
definition MAX_HEALTH :: int where "MAX_HEALTH = 100"

datatype enemy_type = Random | Chaser | Patrol

definition ENEMY_TYPES :: "enemy_type list" where
  "ENEMY_TYPES = [Random, Chaser, Patrol]"

subsection \<open>Sprites, the session object, the keys\<close>

record sprite =
  pos_x :: real
  pos_y :: real
  visible :: bool

record enemy = sprite +
  etype :: enemy_type
  moveCounter :: int
  moveDirection :: int

datatype event =
  EscapeBeep | CollectSound | NewRoundSound | DamageSound | GameOverScreen | TitleScreen

record game_state =
  player :: sprite
  enemies :: "enemy list"
  collectibles :: "sprite list"
  score :: int
  health :: int
  round_no :: int
  enemySpeed :: int
  introComplete :: bool
  gameOver :: bool
  escapePressed :: bool
  detached :: "sprite list"
  events :: "event list"
  rnd :: "nat \<Rightarrow> nat"
  draws :: nat

text \<open>
  \<open>round_no\<close> is \<^verbatim>\<open>gameState.round\<close>. \<open>detached\<close> holds the sprites that were
  removed from the collectibles group: \<^verbatim>\<open>remove(child)\<close> takes the child out of the
  group and leaves it in the scene.
\<close>

record input =
  left_isDown :: bool
  right_isDown :: bool
  up_isDown :: bool
  down_isDown :: bool
  space_isDown :: bool
  escape_isDown :: bool

subsection \<open>Phaser.Math\<close>

text \<open>
  \<^verbatim>\<open>Phaser.Math.Between(min, max)\<close> is a random integer of \<open>[min, max]\<close>; here the
  draw \<open>r\<close> is reduced into that range. The callers pass \<open>min \<le> max\<close> whenever
  \<open>enemySpeed\<close> is not negative.
\<close>

definition Between :: "int \<Rightarrow> int \<Rightarrow> nat \<Rightarrow> int" where
  "Between lo hi r = (if hi < lo then lo else lo + int (r mod nat (hi - lo + 1)))"

text \<open>\<^verbatim>\<open>Phaser.Math.RND.pick(array)\<close>: the element at a random index of the array.\<close>

definition pick :: "'a list \<Rightarrow> nat \<Rightarrow> 'a" where
  "pick xs r = xs ! (r mod length xs)"

definition Clamp :: "real \<Rightarrow> real \<Rightarrow> real \<Rightarrow> real" where
  "Clamp v lo hi = max lo (min hi v)"

definition Distance :: "real \<Rightarrow> real \<Rightarrow> real \<Rightarrow> real \<Rightarrow> real" where
  "Distance x1 y1 x2 y2 = sqrt ((x1 - x2)\<^sup>2 + (y1 - y2)\<^sup>2)"

text \<open>
  \<open>heading dx dy\<close> is the pair \<open>(cos a, sin a)\<close> for \<open>a = atan2(dy, dx)\<close>, the angle
  of \<^verbatim>\<open>Phaser.Math.Angle.Between\<close>; \<open>atan2(0, 0)\<close> is \<open>0\<close>.
\<close>

definition heading :: "real \<Rightarrow> real \<Rightarrow> real \<times> real" where
  "heading dx dy =
     (if dx = 0 \<and> dy = 0 then (1, 0)
      else (dx / sqrt (dx\<^sup>2 + dy\<^sup>2), dy / sqrt (dx\<^sup>2 + dy\<^sup>2)))"

subsection \<open>Array.prototype.forEach\<close>

text \<open>
  \<^verbatim>\<open>array.forEach(callbackfn)\<close> reads the length once, then visits the indices
  \<open>0 .. len - 1\<close> in order and calls the callback on each index the array still has at
  that moment. The array is the live one: \<open>len_of s\<close> is its current length, and the
  callback, given the index, reads the element there.
\<close>

function forEach :: "('s \<Rightarrow> nat) \<Rightarrow> (nat \<Rightarrow> 's \<Rightarrow> 's) \<Rightarrow> nat \<Rightarrow> nat \<Rightarrow> 's \<Rightarrow> 's" where
  "forEach len_of callbackfn k len s =
     (if k < len
      then forEach len_of callbackfn (k + 1) len
             (if k < len_of s then callbackfn k s else s)
      else s)"
  by pat_completeness auto
termination
  by (relation "measure (\<lambda>(len_of, callbackfn, k, len, s). len - k)") auto

declare forEach.simps [simp del]

subsection \<open>GameFactory\<close>

definition add_sprite :: "real \<Rightarrow> real \<Rightarrow> sprite" where
  "add_sprite x y = \<lparr>pos_x = x, pos_y = y, visible = True\<rparr>"

text \<open>
  \<^verbatim>\<open>createEnemy\<close>: a sprite with the fields \<^verbatim>\<open>type\<close>, \<^verbatim>\<open>moveCounter\<close> and
  \<^verbatim>\<open>moveDirection\<close>; \<open>r\<close> is the draw of \<^verbatim>\<open>Phaser.Math.Between(0, 3)\<close>.
\<close>

definition createEnemy :: "real \<Rightarrow> real \<Rightarrow> enemy_type \<Rightarrow> nat \<Rightarrow> enemy option" where
  "createEnemy x y type r =
     Some \<lparr>pos_x = x, pos_y = y, visible = True,
           etype = type, moveCounter = 0, moveDirection = Between 0 3 r\<rparr>"

definition createCollectible :: "real \<Rightarrow> real \<Rightarrow> sprite option" where
  "createCollectible x y = Some (add_sprite x y)"

subsection \<open>Helpers of the model\<close>

definition next_draw :: "game_state \<Rightarrow> nat \<Rightarrow> nat" where
  "next_draw s i = rnd s (draws s + i)"

text \<open>\<^verbatim>\<open>group.setVisible(v)\<close>.\<close>

definition setVisible :: "bool \<Rightarrow> ('a sprite_scheme) list \<Rightarrow> ('a sprite_scheme) list" where
  "setVisible v g = map (\<lambda>c. c\<lparr>visible := v\<rparr>) g"

text \<open>\<^verbatim>\<open>for (let i = 0; i < n; i++) body\<close>, for a body that does not read \<open>i\<close>.\<close>

fun for_loop :: "nat \<Rightarrow> ('s \<Rightarrow> 's) \<Rightarrow> 's \<Rightarrow> 's" where
  "for_loop 0 body s = s"
| "for_loop (Suc n) body s = for_loop n body (body s)"

text \<open>\<^verbatim>\<open>group.remove(child)\<close> for the child at index \<open>k\<close>: a splice.\<close>

definition remove_at :: "nat \<Rightarrow> 'a list \<Rightarrow> 'a list" where
  "remove_at k xs = take k xs @ drop (Suc k) xs"

subsection \<open>create, startActualGame, returnToStartScreen\<close>

text \<open>One round of the loops that populate the enemies group with hidden enemies.\<close>

definition spawnHiddenEnemy :: "game_state \<Rightarrow> game_state" where
  "spawnHiddenEnemy s =
     (let x = Between PLAYER_SIZE (WIDTH - PLAYER_SIZE) (next_draw s 0);
          y = Between PLAYER_SIZE (HEIGHT - PLAYER_SIZE) (next_draw s 1);
          enemy = createEnemy x y Random (next_draw s 2);
          s = s\<lparr>draws := draws s + 3\<rparr>
      in case enemy of
           Some e \<Rightarrow> s\<lparr>enemies := enemies s @ [e\<lparr>visible := False\<rparr>]\<rparr>
         | None \<Rightarrow> s)"

definition spawnHiddenCollectible :: "game_state \<Rightarrow> game_state" where
  "spawnHiddenCollectible s =
     (let x = Between COLLECTIBLE_SIZE (WIDTH - COLLECTIBLE_SIZE) (next_draw s 0);
          y = Between COLLECTIBLE_SIZE (HEIGHT - COLLECTIBLE_SIZE) (next_draw s 1);
          collectible = createCollectible x y;
          s = s\<lparr>draws := draws s + 2\<rparr>
      in case collectible of
           Some c \<Rightarrow> s\<lparr>collectibles := collectibles s @ [c\<lparr>visible := False\<rparr>]\<rparr>
         | None \<Rightarrow> s)"

text \<open>
  \<^verbatim>\<open>create()\<close>, from the initial \<^verbatim>\<open>gameState\<close> literal: the player in the middle of
  the field, the two groups populated, everything hidden at the end.
\<close>

definition create :: "(nat \<Rightarrow> nat) \<Rightarrow> game_state" where
  "create r =
     (let s = \<lparr>player = add_sprite (WIDTH / 2) (HEIGHT / 2), enemies = [], collectibles = [],
               score = 0, health = MAX_HEALTH, round_no = 1, enemySpeed = ENEMY_SPEED,
               introComplete = False, gameOver = False, escapePressed = False,
               detached = [], events = [], rnd = r, draws = 0\<rparr>;
          s = for_loop ENEMY_COUNT spawnHiddenEnemy s;
          s = for_loop COLLECTIBLE_COUNT spawnHiddenCollectible s;
          s = s\<lparr>events := events s @ [TitleScreen]\<rparr>
      in s\<lparr>player := (player s)\<lparr>visible := False\<rparr>,
           enemies := setVisible False (enemies s),
           collectibles := setVisible False (collectibles s)\<rparr>)"

definition startActualGame :: "game_state \<Rightarrow> game_state" where
  "startActualGame s =
     s\<lparr>player := (player s)\<lparr>visible := True\<rparr>,
       enemies := setVisible True (enemies s),
       collectibles := setVisible True (collectibles s),
       introComplete := True\<rparr>"

text \<open>
  \<^verbatim>\<open>returnToStartScreen()\<close>: the reset. \<^verbatim>\<open>clear(true, true)\<close> empties a group and
  destroys its children.
\<close>

definition returnToStartScreen :: "game_state \<Rightarrow> game_state" where
  "returnToStartScreen s =
     (let s = s\<lparr>score := 0, health := MAX_HEALTH, round_no := 1, enemySpeed := ENEMY_SPEED,
                introComplete := False, gameOver := False\<rparr>;
          s = s\<lparr>player := (player s)\<lparr>visible := False\<rparr>,
                enemies := setVisible False (enemies s),
                collectibles := setVisible False (collectibles s)\<rparr>;
          s = for_loop ENEMY_COUNT spawnHiddenEnemy (s\<lparr>enemies := []\<rparr>);
          s = for_loop COLLECTIBLE_COUNT spawnHiddenCollectible (s\<lparr>collectibles := []\<rparr>)
      in s\<lparr>events := events s @ [TitleScreen]\<rparr>)"

subsection \<open>update: the player\<close>

definition movePlayer :: "input \<Rightarrow> game_state \<Rightarrow> game_state" where
  "movePlayer inp s =
     (let p = player s;
          p = (if left_isDown inp then p\<lparr>pos_x := pos_x p - PLAYER_SPEED\<rparr> else p);
          p = (if right_isDown inp then p\<lparr>pos_x := pos_x p + PLAYER_SPEED\<rparr> else p);
          p = (if up_isDown inp then p\<lparr>pos_y := pos_y p - PLAYER_SPEED\<rparr> else p);
          p = (if down_isDown inp then p\<lparr>pos_y := pos_y p + PLAYER_SPEED\<rparr> else p);
          p = p\<lparr>pos_x := Clamp (pos_x p) PLAYER_SIZE (WIDTH - PLAYER_SIZE)\<rparr>;
          p = p\<lparr>pos_y := Clamp (pos_y p) PLAYER_SIZE (HEIGHT - PLAYER_SIZE)\<rparr>
      in s\<lparr>player := p\<rparr>)"

subsection \<open>update: the enemies\<close>

text \<open>
  The patrol branch, with \<open>speed\<close> the enemy's speed and \<open>r\<close> the draw that a re-roll
  uses; the result says how many draws were used.
\<close>

definition patrolMove :: "real \<Rightarrow> nat \<Rightarrow> enemy \<Rightarrow> enemy \<times> nat" where
  "patrolMove speed r e =
     (let e = e\<lparr>moveCounter := moveCounter e + 1\<rparr>;
          (e, n) = (if moveCounter e > 60
                    then (e\<lparr>moveDirection := Between 0 3 r, moveCounter := 0\<rparr>, 1)
                    else (e, 0));
          e = (if moveDirection e = 0 then e\<lparr>pos_y := pos_y e - speed * 0.7\<rparr>
               else if moveDirection e = 1 then e\<lparr>pos_y := pos_y e + speed * 0.7\<rparr>
               else if moveDirection e = 2 then e\<lparr>pos_x := pos_x e - speed * 0.7\<rparr>
               else if moveDirection e = 3 then e\<lparr>pos_x := pos_x e + speed * 0.7\<rparr>
               else e)
      in (e, n))"

text \<open>
  The callback of the movement loop on one enemy, in its two parts: the movement by
  type, then the clamp. \<open>v\<close> is \<^verbatim>\<open>gameState.enemySpeed\<close>, \<open>p\<close> the player, \<open>d\<close>
  the draws to come; the result says how many draws were used.
\<close>

definition moveByType :: "int \<Rightarrow> sprite \<Rightarrow> (nat \<Rightarrow> nat) \<Rightarrow> enemy \<Rightarrow> enemy \<times> nat" where
  "moveByType v p d e =
     (let speed = (if etype e = Chaser then real_of_int v * 0.3 else real_of_int v)
      in if etype e = Random
         then (e\<lparr>pos_x := pos_x e + Between (- v) v (d 0),
                 pos_y := pos_y e + Between (- v) v (d 1)\<rparr>, 2)
         else if etype e = Chaser \<and> visible p
         then (let (c, sn) = heading (pos_x p - pos_x e) (pos_y p - pos_y e)
               in (e\<lparr>pos_x := pos_x e + c * speed * 0.8,
                     pos_y := pos_y e + sn * speed * 0.8\<rparr>, 0))
         else if etype e = Patrol
         then patrolMove speed (d 0) e
         else (e, 0))"

definition keepWithinBounds :: "enemy \<Rightarrow> enemy" where
  "keepWithinBounds e =
     (let e = e\<lparr>pos_x := Clamp (pos_x e) PLAYER_SIZE (WIDTH - PLAYER_SIZE)\<rparr>
      in e\<lparr>pos_y := Clamp (pos_y e) PLAYER_SIZE (HEIGHT - PLAYER_SIZE)\<rparr>)"

definition moveOne :: "int \<Rightarrow> sprite \<Rightarrow> (nat \<Rightarrow> nat) \<Rightarrow> enemy \<Rightarrow> enemy \<times> nat" where
  "moveOne v p d e = (let (e, n) = moveByType v p d e in (keepWithinBounds e, n))"

definition moveEnemy :: "nat \<Rightarrow> game_state \<Rightarrow> game_state" where
  "moveEnemy k s =
     (let (e, n) = moveOne (enemySpeed s) (player s) (next_draw s) (enemies s ! k)
      in s\<lparr>enemies := (enemies s)[k := e], draws := draws s + n\<rparr>)"

definition moveEnemies :: "game_state \<Rightarrow> game_state" where
  "moveEnemies s = forEach (\<lambda>s. length (enemies s)) moveEnemy 0 (length (enemies s)) s"

subsection \<open>update: collectibles and the round\<close>

definition respawnCollectible :: "game_state \<Rightarrow> game_state" where
  "respawnCollectible s =
     (let x = Between COLLECTIBLE_SIZE (WIDTH - COLLECTIBLE_SIZE) (next_draw s 0);
          y = Between COLLECTIBLE_SIZE (HEIGHT - COLLECTIBLE_SIZE) (next_draw s 1);
          newCollectible = createCollectible x y;
          s = s\<lparr>draws := draws s + 2\<rparr>
      in case newCollectible of
           Some c \<Rightarrow> s\<lparr>collectibles := collectibles s @ [c]\<rparr>
         | None \<Rightarrow> s)"

definition addRoundEnemy :: "game_state \<Rightarrow> game_state" where
  "addRoundEnemy s =
     (let enemyType = pick ENEMY_TYPES (next_draw s 0);
          x = Between ENEMY_SIZE (WIDTH - ENEMY_SIZE) (next_draw s 1);
          y = Between ENEMY_SIZE (HEIGHT - ENEMY_SIZE) (next_draw s 2);
          newEnemy = createEnemy x y enemyType (next_draw s 3);
          s = s\<lparr>draws := draws s + 4\<rparr>
      in case newEnemy of
           Some e \<Rightarrow> s\<lparr>enemies := enemies s @ [e]\<rparr>
         | None \<Rightarrow> s)"

definition newRound :: "game_state \<Rightarrow> game_state" where
  "newRound s =
     (let s = s\<lparr>round_no := round_no s + 1\<rparr>;
          s = s\<lparr>enemySpeed := enemySpeed s + 1\<rparr>;
          s = s\<lparr>events := events s @ [NewRoundSound]\<rparr>;
          s = for_loop COLLECTIBLE_COUNT respawnCollectible s
      in if round_no s \<ge> 2 then addRoundEnemy s else s)"

definition collectCallback :: "nat \<Rightarrow> game_state \<Rightarrow> game_state" where
  "collectCallback k s =
     (let collectible = collectibles s ! k in
      if visible collectible \<and> visible (player s) then
        if Distance (pos_x (player s)) (pos_y (player s)) (pos_x collectible) (pos_y collectible)
             < COLLECTIBLE_SIZE
        then
          (let s = s\<lparr>detached := detached s @ [collectible\<lparr>visible := False\<rparr>],
                     collectibles := remove_at k (collectibles s)\<rparr>;
               s = s\<lparr>score := score s + SCORE_PER_COLLECTIBLE\<rparr>;
               s = s\<lparr>events := events s @ [CollectSound]\<rparr>
           in if length (collectibles s) = 0 then newRound s else s)
        else s
      else s)"

definition collectibleCollisions :: "game_state \<Rightarrow> game_state" where
  "collectibleCollisions s =
     (if introComplete s \<and> \<not> gameOver s
      then forEach (\<lambda>s. length (collectibles s)) collectCallback 0 (length (collectibles s)) s
      else s)"

subsection \<open>update: the enemies' damage and the end of the game\<close>

definition enemyCallback :: "nat \<Rightarrow> game_state \<Rightarrow> game_state" where
  "enemyCallback k s =
     (let enemy = enemies s ! k in
      if visible enemy \<and> visible (player s) then
        if Distance (pos_x (player s)) (pos_y (player s)) (pos_x enemy) (pos_y enemy)
             < ENEMY_SIZE
        then
          (let s = s\<lparr>health := health s - DAMAGE_PER_ENEMY\<rparr>;
               s = s\<lparr>events := events s @ [DamageSound]\<rparr>
           in if health s \<le> 0
              then s\<lparr>gameOver := True,
                     player := (player s)\<lparr>visible := False\<rparr>,
                     enemies := setVisible False (enemies s),
                     collectibles := setVisible False (collectibles s),
                     events := events s @ [GameOverScreen]\<rparr>
              else s)
        else s
      else s)"

definition enemyCollisions :: "game_state \<Rightarrow> game_state" where
  "enemyCollisions s =
     (if introComplete s \<and> \<not> gameOver s
      then forEach (\<lambda>s. length (enemies s)) enemyCallback 0 (length (enemies s)) s
      else s)"

subsection \<open>update\<close>

text \<open>
  One frame. The escape key, when newly pressed, beeps, schedules
  \<^verbatim>\<open>returnToStartScreen\<close> and ends the frame; a finished game ends the frame; the
  spacebar during active gameplay ends the frame after the player has moved.
\<close>

definition update :: "input \<Rightarrow> game_state \<Rightarrow> game_state" where
  "update inp s =
     (if escape_isDown inp \<and> \<not> escapePressed s
      then s\<lparr>escapePressed := True, events := events s @ [EscapeBeep]\<rparr>
      else
        (let s = (if \<not> escape_isDown inp then s\<lparr>escapePressed := False\<rparr> else s) in
         if gameOver s then s
         else
           (let s = movePlayer inp s in
            if space_isDown inp \<and> \<not> (\<not> introComplete s \<or> gameOver s) then s
            else enemyCollisions (collectibleCollisions (moveEnemies s)))))"

subsection \<open>Properties of states\<close>

text \<open>
  A sprite lies in the field with margin \<open>sz\<close>: both coordinates are in
  \<open>[sz, dimension - sz]\<close>.
\<close>

definition in_field :: "int \<Rightarrow> 'a sprite_scheme \<Rightarrow> bool" where
  "in_field sz e =
     (real_of_int sz \<le> pos_x e \<and> pos_x e \<le> real_of_int (WIDTH - sz) \<and>
      real_of_int sz \<le> pos_y e \<and> pos_y e \<le> real_of_int (HEIGHT - sz))"

text \<open>
  The canonical initial state of a session, up to the positions and headings that the
  spawns draw.
\<close>

definition canonical :: "game_state \<Rightarrow> bool" where
  "canonical s =
     (score s = 0 \<and> health s = MAX_HEALTH \<and> round_no s = 1 \<and> enemySpeed s = ENEMY_SPEED \<and>
      \<not> introComplete s \<and> \<not> gameOver s \<and>
      map etype (enemies s) = replicate ENEMY_COUNT Random \<and>
      length (collectibles s) = COLLECTIBLE_COUNT \<and>
      \<not> visible (player s) \<and>
      map visible (enemies s) = replicate ENEMY_COUNT False \<and>
      map visible (collectibles s) = replicate COLLECTIBLE_COUNT False)"

text \<open>
  The overlap test of both collision loops: the entity and the player are visible and
  their distance is less than \<open>sz\<close>.
\<close>

definition touches :: "int \<Rightarrow> sprite \<Rightarrow> 'a sprite_scheme \<Rightarrow> bool" where
  "touches sz p e =
     (visible e \<and> visible p \<and>
      Distance (pos_x p) (pos_y p) (pos_x e) (pos_y e) < real_of_int sz)"

text \<open>No two neighbours of the list both satisfy \<open>P\<close>.\<close>

fun no_adjacent :: "('a \<Rightarrow> bool) \<Rightarrow> 'a list \<Rightarrow> bool" where
  "no_adjacent P [] = True"
| "no_adjacent P [x] = True"
| "no_adjacent P (x # y # zs) = (\<not> (P x \<and> P y) \<and> no_adjacent P (y # zs))"

text \<open>
  The state in which the collision loops start, in a frame that reaches them: the escape
  flag released, the player moved, the enemies moved.
\<close>

definition moved :: "input \<Rightarrow> game_state \<Rightarrow> game_state" where
  "moved inp s =
     moveEnemies (movePlayer inp (if \<not> escape_isDown inp then s\<lparr>escapePressed := False\<rparr> else s))"

text \<open>Phaser calls \<^verbatim>\<open>update\<close> once per frame: a run of frames, one input each.\<close>

fun frames :: "input list \<Rightarrow> game_state \<Rightarrow> game_state" where
  "frames [] s = s"
| "frames (inp # inps) s = frames inps (update inp s)"

subsection \<open>Concrete inputs and states\<close>

definition no_keys :: input where
  "no_keys = \<lparr>left_isDown = False, right_isDown = False, up_isDown = False,
     down_isDown = False, space_isDown = False, escape_isDown = False\<rparr>"

text \<open>Active gameplay: the player next to one collectible, a patrol enemy far away.\<close>

definition playing :: game_state where
  "playing = \<lparr>player = \<lparr>pos_x = 100, pos_y = 100, visible = True\<rparr>,
     enemies = [\<lparr>pos_x = 400, pos_y = 300, visible = True,
                 etype = Patrol, moveCounter = 0, moveDirection = 3\<rparr>],
     collectibles = [\<lparr>pos_x = 105, pos_y = 100, visible = True\<rparr>,
                     \<lparr>pos_x = 500, pos_y = 500, visible = True\<rparr>],
     score = 0, health = 100, round_no = 1, enemySpeed = 4,
     introComplete = True, gameOver = False, escapePressed = False,
     detached = [], events = [], rnd = (\<lambda>_. 0), draws = 0\<rparr>"

text \<open>Active gameplay with two collectibles in reach, neighbours in the group.\<close>

definition two_in_reach :: game_state where
  "two_in_reach = playing\<lparr>collectibles :=
     [\<lparr>pos_x = 105, pos_y = 100, visible = True\<rparr>,
      \<lparr>pos_x = 106, pos_y = 100, visible = True\<rparr>,
      \<lparr>pos_x = 500, pos_y = 500, visible = True\<rparr>]\<rparr>"

text \<open>Active gameplay with the last collectible of round 1 in reach and no enemy.\<close>

definition last_item :: game_state where
  "last_item = \<lparr>player = \<lparr>pos_x = 100, pos_y = 100, visible = True\<rparr>,
     enemies = [],
     collectibles = [\<lparr>pos_x = 105, pos_y = 100, visible = True\<rparr>],
     score = 90, health = 100, round_no = 1, enemySpeed = 4,
     introComplete = True, gameOver = False, escapePressed = False,
     detached = [], events = [], rnd = (\<lambda>_. 0), draws = 0\<rparr>"

text \<open>
  Active gameplay in round 3 with the last collectible in reach and one enemy far away;
  the draws are \<open>0, 1, 2, \<dots>\<close>.
\<close>

definition last_of_round_3 :: game_state where
  "last_of_round_3 = \<lparr>player = \<lparr>pos_x = 300, pos_y = 300, visible = True\<rparr>,
     enemies = [\<lparr>pos_x = 600, pos_y = 400, visible = True,
                 etype = Random, moveCounter = 0, moveDirection = 2\<rparr>],
     collectibles = [\<lparr>pos_x = 305, pos_y = 300, visible = True\<rparr>],
     score = 290, health = 100, round_no = 3, enemySpeed = 6,
     introComplete = True, gameOver = False, escapePressed = False,
     detached = [], events = [], rnd = (\<lambda>n. n), draws = 0\<rparr>"

text \<open>A patrol enemy one unit from the left clamp bound, heading left.\<close>

definition near_wall :: game_state where
  "near_wall = \<lparr>player = \<lparr>pos_x = 400, pos_y = 300, visible = True\<rparr>,
     enemies = [\<lparr>pos_x = 33, pos_y = 300, visible = True,
                 etype = Patrol, moveCounter = 0, moveDirection = 2\<rparr>],
     collectibles = [\<lparr>pos_x = 700, pos_y = 500, visible = True\<rparr>],
     score = 0, health = 100, round_no = 1, enemySpeed = 4,
     introComplete = True, gameOver = False, escapePressed = False,
     detached = [], events = [], rnd = (\<lambda>_. 0), draws = 0\<rparr>"

text \<open>The title screen: intro not complete, everything hidden.\<close>

definition attract :: game_state where
  "attract = \<lparr>player = \<lparr>pos_x = 400, pos_y = 300, visible = False\<rparr>,
     enemies = [\<lparr>pos_x = 100, pos_y = 100, visible = False,
                 etype = Patrol, moveCounter = 0, moveDirection = 3\<rparr>],
     collectibles = [\<lparr>pos_x = 700, pos_y = 500, visible = False\<rparr>],
     score = 0, health = 100, round_no = 1, enemySpeed = 4,
     introComplete = False, gameOver = False, escapePressed = False,
     detached = [], events = [], rnd = (\<lambda>_. 0), draws = 0\<rparr>"

text \<open>Active gameplay with two enemies on the player; then the same with health 10.\<close>

definition crowded :: game_state where
  "crowded = \<lparr>player = \<lparr>pos_x = 100, pos_y = 100, visible = True\<rparr>,
     enemies = [\<lparr>pos_x = 110, pos_y = 100, visible = True,
                 etype = Chaser, moveCounter = 0, moveDirection = 0\<rparr>,
                \<lparr>pos_x = 100, pos_y = 120, visible = True,
                 etype = Patrol, moveCounter = 0, moveDirection = 1\<rparr>],
     collectibles = [\<lparr>pos_x = 700, pos_y = 500, visible = True\<rparr>],
     score = 30, health = 100, round_no = 1, enemySpeed = 4,
     introComplete = True, gameOver = False, escapePressed = False,
     detached = [], events = [], rnd = (\<lambda>_. 0), draws = 0\<rparr>"

definition dying :: game_state where
  "dying = crowded\<lparr>health := 10\<rparr>"

text \<open>
  Active gameplay with one patrol enemy heading right, far from the player, after \<open>k\<close>
  frames of its patrol; \<open>patrol_after 0\<close> has the enemy as \<^verbatim>\<open>createEnemy\<close> makes it,
  with \<^verbatim>\<open>moveCounter\<close> 0. Every draw of this state is 1.
\<close>

definition patrol_after :: "nat \<Rightarrow> game_state" where
  "patrol_after k = \<lparr>player = \<lparr>pos_x = 700, pos_y = 500, visible = True\<rparr>,
     enemies = [\<lparr>pos_x = 100 + 14 / 5 * real k, pos_y = 100, visible = True,
                 etype = Patrol, moveCounter = int k, moveDirection = 3\<rparr>],
     collectibles = [\<lparr>pos_x = 400, pos_y = 300, visible = True\<rparr>],
     score = 0, health = 100, round_no = 1, enemySpeed = 4,
     introComplete = True, gameOver = False, escapePressed = False,
     detached = [], events = [], rnd = (\<lambda>_. 1), draws = 0\<rparr>"

text \<open>
  Keys held in a frame: the right arrow; the spacebar; spacebar and right arrow; spacebar,
  escape and left arrow.
\<close>

definition right_key :: input where
  "right_key = no_keys\<lparr>right_isDown := True\<rparr>"

definition space_only :: input where
  "space_only = no_keys\<lparr>space_isDown := True\<rparr>"


definition space_right :: input where
  "space_right = no_keys\<lparr>space_isDown := True, right_isDown := True\<rparr>"

definition space_escape_left :: input where
  "space_escape_left = no_keys\<lparr>space_isDown := True, escape_isDown := True, left_isDown := True\<rparr>"

section \<open>Lemmas\<close>

lemmas GAME_CONSTANTS =
  WIDTH_def HEIGHT_def PLAYER_SPEED_def ENEMY_SPEED_def ENEMY_COUNT_def
  COLLECTIBLE_COUNT_def PLAYER_SIZE_def ENEMY_SIZE_def COLLECTIBLE_SIZE_def
  SCORE_PER_COLLECTIBLE_def DAMAGE_PER_ENEMY_def MAX_HEALTH_def ENEMY_TYPES_def

subsection \<open>Loops, distances, ranges\<close>




lemma forEach_stop: "\<not> k < len \<Longrightarrow> forEach L f k len s = s"
  by (simp add: forEach.simps)

lemma forEach_step:
  "k < len \<Longrightarrow> forEach L f k len s = forEach L f (Suc k) len (if k < L s then f k s else s)"
  by (subst forEach.simps) simp

lemma forEach_inv_idx:
  assumes "Q k s"
    and "\<And>j t. k \<le> j \<Longrightarrow> j < len \<Longrightarrow> Q j t \<Longrightarrow> Q (Suc j) (if j < L t then f j t else t)"
    and "k \<le> len"
  shows "Q len (forEach L f k len s)"
  using assms
proof (induction "len - k" arbitrary: k s)
  case 0
  then show ?case by (simp add: forEach_stop)
next
  case (Suc n)
  then have lt: "k < len" by simp
  have "Q len (forEach L f (Suc k) len (if k < L s then f k s else s))"
  proof (rule Suc.hyps(1))
    show "n = len - Suc k" using Suc.hyps(2) by simp
    show "Q (Suc k) (if k < L s then f k s else s)" using Suc.prems(1,2) lt by blast
    show "Suc k \<le> len" using lt by simp
    show "\<And>j t. Suc k \<le> j \<Longrightarrow> j < len \<Longrightarrow> Q j t \<Longrightarrow> Q (Suc j) (if j < L t then f j t else t)"
      using Suc.prems(2) by simp
  qed
  then show ?case by (simp add: forEach_step lt)
qed

lemma forEach_inv:
  assumes "P s" and "\<And>j t. P t \<Longrightarrow> j < L t \<Longrightarrow> P (f j t)"
  shows "P (forEach L f k len s)"
proof (cases "k \<le> len")
  case True
  show ?thesis
    by (rule forEach_inv_idx [where Q = "\<lambda>_. P"]) (use assms True in auto)
next
  case False
  then show ?thesis using assms(1) by (simp add: forEach_stop)
qed

lemma forEach_pres:
  assumes "\<And>j t. j < L t \<Longrightarrow> g (f j t) = g t"
  shows "g (forEach L f k len s) = g s"
  by (rule forEach_inv [where P = "\<lambda>t. g t = g s"]) (use assms in auto)

lemma sqrt_less_iff: "0 < r \<Longrightarrow> (sqrt a < r) = (a < r\<^sup>2)"
proof -
  assume r: "0 < r"
  have "sqrt (r\<^sup>2) = r" using r by simp
  then show ?thesis by (metis real_sqrt_less_iff)
qed

lemma Distance_less_iff:
  "0 < r \<Longrightarrow> (Distance x1 y1 x2 y2 < r) = ((x1 - x2)\<^sup>2 + (y1 - y2)\<^sup>2 < r\<^sup>2)"
  unfolding Distance_def by (rule sqrt_less_iff)

subsection \<open>movePlayer\<close>

lemma movePlayer_frame [simp]:
  "enemies (movePlayer inp s) = enemies s"
  "collectibles (movePlayer inp s) = collectibles s"
  "score (movePlayer inp s) = score s"
  "health (movePlayer inp s) = health s"
  "round_no (movePlayer inp s) = round_no s"
  "enemySpeed (movePlayer inp s) = enemySpeed s"
  "introComplete (movePlayer inp s) = introComplete s"
  "gameOver (movePlayer inp s) = gameOver s"
  "escapePressed (movePlayer inp s) = escapePressed s"
  "detached (movePlayer inp s) = detached s"
  "events (movePlayer inp s) = events s"
  "rnd (movePlayer inp s) = rnd s"
  "draws (movePlayer inp s) = draws s"
  "visible (player (movePlayer inp s)) = visible (player s)"
  by (simp_all add: movePlayer_def Let_def)

lemma movePlayer_cong:
  "player (movePlayer inp (s\<lparr>escapePressed := b\<rparr>)) = player (movePlayer inp s)"
  by (simp add: movePlayer_def Let_def)




lemma Between_bounds: "lo \<le> hi \<Longrightarrow> lo \<le> Between lo hi r \<and> Between lo hi r \<le> hi"
proof -
  assume h: "lo \<le> hi"
  then have "0 < nat (hi - lo + 1)" by simp
  then have "r mod nat (hi - lo + 1) < nat (hi - lo + 1)" by (rule mod_less_divisor)
  then have "int (r mod nat (hi - lo + 1)) < hi - lo + 1" using h by linarith
  then show ?thesis using h by (simp add: Between_def)
qed

lemma Clamp_bounds: "lo \<le> hi \<Longrightarrow> lo \<le> Clamp v lo hi \<and> Clamp v lo hi \<le> hi"
  by (simp add: Clamp_def)

lemma in_field_visible [simp]: "in_field n (e\<lparr>visible := b\<rparr>) = in_field n e"
  by (simp add: in_field_def)

lemma in_field_mono: "in_field ENEMY_SIZE e \<Longrightarrow> in_field PLAYER_SIZE e"
  by (simp add: in_field_def GAME_CONSTANTS)

subsection \<open>The spawn loops\<close>

lemma for_loop_Suc_end: "for_loop (Suc n) body s = body (for_loop n body s)"
  by (induction n arbitrary: s) simp_all

lemma spawnHiddenEnemy_eq:
  "\<exists>e. spawnHiddenEnemy s = s\<lparr>enemies := enemies s @ [e], draws := draws s + 3\<rparr> \<and>
       etype e = Random \<and> \<not> visible e \<and> moveCounter e = 0 \<and> in_field PLAYER_SIZE e"
  using Between_bounds [of 32 768 "next_draw s 0"] Between_bounds [of 32 568 "next_draw s 1"]
  by (intro exI [of _ "\<lparr>pos_x = real_of_int (Between 32 768 (next_draw s 0)),
        pos_y = real_of_int (Between 32 568 (next_draw s 1)), visible = False,
        etype = Random, moveCounter = 0, moveDirection = Between 0 3 (next_draw s 2)\<rparr>"])
     (simp add: spawnHiddenEnemy_def createEnemy_def Let_def in_field_def GAME_CONSTANTS)

lemma spawnHiddenEnemies:
  "\<exists>es. for_loop n spawnHiddenEnemy s = s\<lparr>enemies := enemies s @ es, draws := draws s + 3 * n\<rparr> \<and>
        map etype es = replicate n Random \<and> map visible es = replicate n False \<and>
        map moveCounter es = replicate n 0 \<and> list_all (in_field PLAYER_SIZE) es"
proof (induction n arbitrary: s)
  case 0
  show ?case by simp
next
  case (Suc n)
  obtain e where e: "spawnHiddenEnemy s = s\<lparr>enemies := enemies s @ [e], draws := draws s + 3\<rparr>"
    "etype e = Random" "\<not> visible e" "moveCounter e = 0" "in_field PLAYER_SIZE e"
    using spawnHiddenEnemy_eq by blast
  let ?s1 = "s\<lparr>enemies := enemies s @ [e], draws := draws s + 3\<rparr>"
  obtain es where es: "for_loop n spawnHiddenEnemy ?s1 =
      ?s1\<lparr>enemies := enemies ?s1 @ es, draws := draws ?s1 + 3 * n\<rparr>"
    "map etype es = replicate n Random" "map visible es = replicate n False"
    "map moveCounter es = replicate n 0" "list_all (in_field PLAYER_SIZE) es"
    using Suc.IH by blast
  show ?case
    by (rule exI [of _ "e # es"]) (use es e in simp)
qed

lemma spawnHiddenCollectible_eq:
  "\<exists>c. spawnHiddenCollectible s = s\<lparr>collectibles := collectibles s @ [c], draws := draws s + 2\<rparr> \<and>
       \<not> visible c \<and> in_field COLLECTIBLE_SIZE c"
  using Between_bounds [of 32 768 "next_draw s 0"] Between_bounds [of 32 568 "next_draw s 1"]
  by (intro exI [of _ "\<lparr>pos_x = real_of_int (Between 32 768 (next_draw s 0)),
        pos_y = real_of_int (Between 32 568 (next_draw s 1)), visible = False\<rparr>"])
     (simp add: spawnHiddenCollectible_def createCollectible_def add_sprite_def Let_def
      in_field_def GAME_CONSTANTS)

lemma spawnHiddenCollectibles:
  "\<exists>cs. for_loop n spawnHiddenCollectible s =
          s\<lparr>collectibles := collectibles s @ cs, draws := draws s + 2 * n\<rparr> \<and>
        map visible cs = replicate n False \<and> list_all (in_field COLLECTIBLE_SIZE) cs"
proof (induction n arbitrary: s)
  case 0
  show ?case by simp
next
  case (Suc n)
  obtain c where c: "spawnHiddenCollectible s = s\<lparr>collectibles := collectibles s @ [c], draws := draws s + 2\<rparr>"
    "\<not> visible c" "in_field COLLECTIBLE_SIZE c"
    using spawnHiddenCollectible_eq by blast
  let ?s1 = "s\<lparr>collectibles := collectibles s @ [c], draws := draws s + 2\<rparr>"
  obtain cs where cs: "for_loop n spawnHiddenCollectible ?s1 =
      ?s1\<lparr>collectibles := collectibles ?s1 @ cs, draws := draws ?s1 + 2 * n\<rparr>"
    "map visible cs = replicate n False" "list_all (in_field COLLECTIBLE_SIZE) cs"
    using Suc.IH by blast
  show ?case
    by (rule exI [of _ "c # cs"]) (use cs c in simp)
qed

lemma respawnCollectible_eq:
  "\<exists>c. respawnCollectible s = s\<lparr>collectibles := collectibles s @ [c], draws := draws s + 2\<rparr> \<and>
       visible c \<and> in_field COLLECTIBLE_SIZE c"
  using Between_bounds [of 32 768 "next_draw s 0"] Between_bounds [of 32 568 "next_draw s 1"]
  by (intro exI [of _ "\<lparr>pos_x = real_of_int (Between 32 768 (next_draw s 0)),
        pos_y = real_of_int (Between 32 568 (next_draw s 1)), visible = True\<rparr>"])
     (simp add: respawnCollectible_def createCollectible_def add_sprite_def Let_def
      in_field_def GAME_CONSTANTS)

lemma respawnCollectibles:
  "\<exists>cs. for_loop n respawnCollectible s =
          s\<lparr>collectibles := collectibles s @ cs, draws := draws s + 2 * n\<rparr> \<and>
        map visible cs = replicate n True \<and> list_all (in_field COLLECTIBLE_SIZE) cs"
proof (induction n arbitrary: s)
  case 0
  show ?case by simp
next
  case (Suc n)
  obtain c where c: "respawnCollectible s = s\<lparr>collectibles := collectibles s @ [c], draws := draws s + 2\<rparr>"
    "visible c" "in_field COLLECTIBLE_SIZE c"
    using respawnCollectible_eq by blast
  let ?s1 = "s\<lparr>collectibles := collectibles s @ [c], draws := draws s + 2\<rparr>"
  obtain cs where cs: "for_loop n respawnCollectible ?s1 =
      ?s1\<lparr>collectibles := collectibles ?s1 @ cs, draws := draws ?s1 + 2 * n\<rparr>"
    "map visible cs = replicate n True" "list_all (in_field COLLECTIBLE_SIZE) cs"
    using Suc.IH by blast
  show ?case
    by (rule exI [of _ "c # cs"]) (use cs c in simp)
qed

lemma pick_ENEMY_TYPES: "pick ENEMY_TYPES r \<in> set ENEMY_TYPES"
  by (cases "pick ENEMY_TYPES r") (simp_all add: ENEMY_TYPES_def)

lemma addRoundEnemy_eq:
  "\<exists>e. addRoundEnemy s = s\<lparr>enemies := enemies s @ [e], draws := draws s + 4\<rparr> \<and>
       visible e \<and> in_field ENEMY_SIZE e \<and> etype e = pick ENEMY_TYPES (next_draw s 0) \<and>
       moveCounter e = 0"
  using Between_bounds [of 48 752 "next_draw s 1"] Between_bounds [of 48 552 "next_draw s 2"]
  by (intro exI [of _ "\<lparr>pos_x = real_of_int (Between 48 752 (next_draw s 1)),
        pos_y = real_of_int (Between 48 552 (next_draw s 2)), visible = True,
        etype = pick ENEMY_TYPES (next_draw s 0), moveCounter = 0,
        moveDirection = Between 0 3 (next_draw s 3)\<rparr>"])
     (simp add: addRoundEnemy_def createEnemy_def Let_def in_field_def GAME_CONSTANTS)

lemma newRound_eq:
  "\<exists>cs es. newRound s =
       s\<lparr>round_no := round_no s + 1, enemySpeed := enemySpeed s + 1,
         events := events s @ [NewRoundSound],
         collectibles := collectibles s @ cs, enemies := enemies s @ es,
         draws := draws s + 2 * COLLECTIBLE_COUNT + 4 * length es\<rparr> \<and>
     map visible cs = replicate COLLECTIBLE_COUNT True \<and>
     list_all (in_field COLLECTIBLE_SIZE) cs \<and>
     length es = (if round_no s + 1 \<ge> 2 then 1 else 0) \<and>
     list_all visible es \<and> list_all (in_field ENEMY_SIZE) es \<and>
     list_all (\<lambda>e. moveCounter e = 0) es"
proof -
  let ?s1 = "s\<lparr>round_no := round_no s + 1, enemySpeed := enemySpeed s + 1,
         events := events s @ [NewRoundSound]\<rparr>"
  obtain cs where cs: "for_loop COLLECTIBLE_COUNT respawnCollectible ?s1 =
      ?s1\<lparr>collectibles := collectibles ?s1 @ cs, draws := draws ?s1 + 2 * COLLECTIBLE_COUNT\<rparr>"
    "map visible cs = replicate COLLECTIBLE_COUNT True" "list_all (in_field COLLECTIBLE_SIZE) cs"
    using respawnCollectibles by blast
  let ?s2 = "for_loop COLLECTIBLE_COUNT respawnCollectible ?s1"
  obtain e where e: "addRoundEnemy ?s2 = ?s2\<lparr>enemies := enemies ?s2 @ [e], draws := draws ?s2 + 4\<rparr>"
    "visible e" "in_field ENEMY_SIZE e" "moveCounter e = 0"
    using addRoundEnemy_eq by blast
  show ?thesis
  proof (cases "round_no s + 1 \<ge> 2")
    case True
    show ?thesis
      by (rule exI [of _ cs], rule exI [of _ "[e]"])
        (use cs e True in \<open>simp add: newRound_def Let_def\<close>)
  next
    case False
    show ?thesis
      by (rule exI [of _ cs], rule exI [of _ "[]"])
        (use cs False in \<open>simp add: newRound_def Let_def\<close>)
  qed
qed





lemma returnToStartScreen_canonical: "canonical (returnToStartScreen s)"
proof -
  let ?s1 = "s\<lparr>score := 0, health := MAX_HEALTH, round_no := 1, enemySpeed := ENEMY_SPEED,
                introComplete := False, gameOver := False\<rparr>"
  let ?s2 = "?s1\<lparr>player := (player ?s1)\<lparr>visible := False\<rparr>,
                enemies := setVisible False (enemies ?s1),
                collectibles := setVisible False (collectibles ?s1)\<rparr>"
  let ?s3 = "?s2\<lparr>enemies := []\<rparr>"
  obtain es where es: "for_loop ENEMY_COUNT spawnHiddenEnemy ?s3 =
      ?s3\<lparr>enemies := enemies ?s3 @ es, draws := draws ?s3 + 3 * ENEMY_COUNT\<rparr>"
    "map etype es = replicate ENEMY_COUNT Random" "map visible es = replicate ENEMY_COUNT False"
    using spawnHiddenEnemies by blast
  let ?s4 = "(for_loop ENEMY_COUNT spawnHiddenEnemy ?s3)\<lparr>collectibles := []\<rparr>"
  obtain cs where cs: "for_loop COLLECTIBLE_COUNT spawnHiddenCollectible ?s4 =
      ?s4\<lparr>collectibles := collectibles ?s4 @ cs, draws := draws ?s4 + 2 * COLLECTIBLE_COUNT\<rparr>"
    "map visible cs = replicate COLLECTIBLE_COUNT False"
    using spawnHiddenCollectibles by blast
  have len: "length cs = COLLECTIBLE_COUNT"
    using cs(2) by (metis length_map length_replicate)
  have "returnToStartScreen s =
      (for_loop COLLECTIBLE_COUNT spawnHiddenCollectible ?s4)\<lparr>events :=
         events (for_loop COLLECTIBLE_COUNT spawnHiddenCollectible ?s4) @ [TitleScreen]\<rparr>"
    by (simp add: returnToStartScreen_def Let_def)
  then show ?thesis
    using es cs len by (simp add: canonical_def)
qed

lemma create_hidden:
  "\<not> visible (player (create r)) \<and>
   map visible (enemies (create r)) = replicate ENEMY_COUNT False \<and>
   map visible (collectibles (create r)) = replicate COLLECTIBLE_COUNT False"
proof -
  let ?s0 = "\<lparr>player = add_sprite (WIDTH / 2) (HEIGHT / 2), enemies = [], collectibles = [],
               score = 0, health = MAX_HEALTH, round_no = 1, enemySpeed = ENEMY_SPEED,
               introComplete = False, gameOver = False, escapePressed = False,
               detached = [], events = [], rnd = r, draws = 0\<rparr>"
  obtain es where es: "for_loop ENEMY_COUNT spawnHiddenEnemy ?s0 =
      ?s0\<lparr>enemies := enemies ?s0 @ es, draws := draws ?s0 + 3 * ENEMY_COUNT\<rparr>"
    "map visible es = replicate ENEMY_COUNT False"
    using spawnHiddenEnemies by blast
  let ?s1 = "for_loop ENEMY_COUNT spawnHiddenEnemy ?s0"
  obtain cs where cs: "for_loop COLLECTIBLE_COUNT spawnHiddenCollectible ?s1 =
      ?s1\<lparr>collectibles := collectibles ?s1 @ cs, draws := draws ?s1 + 2 * COLLECTIBLE_COUNT\<rparr>"
    "map visible cs = replicate COLLECTIBLE_COUNT False"
    using spawnHiddenCollectibles by blast
  have len: "length cs = COLLECTIBLE_COUNT" "length es = ENEMY_COUNT"
    using cs(2) es(2) by (metis length_map length_replicate)+
  have v: "map visible (setVisible False xs) = replicate (length xs) False" for xs :: "'a sprite_scheme list"
    by (induction xs) (simp_all add: setVisible_def)
  show ?thesis
    using es cs len by (simp add: create_def Let_def v)
qed

lemmas stage_player = update_def movePlayer_def Clamp_def Let_def GAME_CONSTANTS

lemmas stage_enemies = moveEnemies_def moveEnemy_def moveOne_def moveByType_def keepWithinBounds_def
  patrolMove_def heading_def
  next_draw_def Between_def Clamp_def forEach_step forEach_stop Let_def GAME_CONSTANTS

lemmas stage_collect = collectibleCollisions_def collectCallback_def remove_at_def
  Distance_less_iff power2_eq_square forEach_step forEach_stop Let_def GAME_CONSTANTS

lemmas stage_round = newRound_def respawnCollectible_def addRoundEnemy_def createCollectible_def
  createEnemy_def add_sprite_def pick_def next_draw_def Between_def Let_def GAME_CONSTANTS

lemmas stage_damage = enemyCollisions_def enemyCallback_def setVisible_def
  Distance_less_iff power2_eq_square forEach_step forEach_stop Let_def GAME_CONSTANTS

subsection \<open>The movement of the enemies\<close>

lemma patrolMove_props:
  "visible (fst (patrolMove sp r e)) = visible e"
  "etype (fst (patrolMove sp r e)) = etype e"
  by (simp_all add: patrolMove_def Let_def split_beta)

lemma moveByType_props:
  "visible (fst (moveByType v p d e)) = visible e"
  "etype (fst (moveByType v p d e)) = etype e"
  by (simp_all add: moveByType_def Let_def split_beta patrolMove_props)

lemma keepWithinBounds_props:
  "in_field PLAYER_SIZE (keepWithinBounds e)"
  "visible (keepWithinBounds e) = visible e"
  "etype (keepWithinBounds e) = etype e"
  "moveCounter (keepWithinBounds e) = moveCounter e"
  "moveDirection (keepWithinBounds e) = moveDirection e"
  by (simp_all add: keepWithinBounds_def Let_def in_field_def Clamp_def GAME_CONSTANTS)

lemma moveOne_props:
  "in_field PLAYER_SIZE (fst (moveOne v p d e))"
  "visible (fst (moveOne v p d e)) = visible e"
  "etype (fst (moveOne v p d e)) = etype e"
  by (simp_all add: moveOne_def split_beta keepWithinBounds_props moveByType_props)

lemma moveOne_chaser_hidden_player:
  "etype e = Chaser \<Longrightarrow> \<not> visible p \<Longrightarrow> in_field PLAYER_SIZE e \<Longrightarrow> moveOne v p d e = (e, 0)"
  by (simp add: moveOne_def moveByType_def keepWithinBounds_def Let_def in_field_def Clamp_def
      GAME_CONSTANTS)

lemma moveEnemy_frame [simp]:
  "player (moveEnemy k s) = player s"
  "collectibles (moveEnemy k s) = collectibles s"
  "score (moveEnemy k s) = score s"
  "health (moveEnemy k s) = health s"
  "round_no (moveEnemy k s) = round_no s"
  "enemySpeed (moveEnemy k s) = enemySpeed s"
  "introComplete (moveEnemy k s) = introComplete s"
  "gameOver (moveEnemy k s) = gameOver s"
  "escapePressed (moveEnemy k s) = escapePressed s"
  "detached (moveEnemy k s) = detached s"
  "events (moveEnemy k s) = events s"
  "rnd (moveEnemy k s) = rnd s"
  "length (enemies (moveEnemy k s)) = length (enemies s)"
  by (simp_all add: moveEnemy_def split_beta)

lemma moveEnemy_enemies:
  "enemies (moveEnemy k s) =
     (enemies s)[k := fst (moveOne (enemySpeed s) (player s) (next_draw s) (enemies s ! k))]"
  by (simp add: moveEnemy_def split_beta)

lemma moveEnemies_frame [simp]:
  "player (moveEnemies s) = player s"
  "collectibles (moveEnemies s) = collectibles s"
  "score (moveEnemies s) = score s"
  "health (moveEnemies s) = health s"
  "round_no (moveEnemies s) = round_no s"
  "enemySpeed (moveEnemies s) = enemySpeed s"
  "introComplete (moveEnemies s) = introComplete s"
  "gameOver (moveEnemies s) = gameOver s"
  "escapePressed (moveEnemies s) = escapePressed s"
  "detached (moveEnemies s) = detached s"
  "events (moveEnemies s) = events s"
  "rnd (moveEnemies s) = rnd s"
  "length (enemies (moveEnemies s)) = length (enemies s)"
  unfolding moveEnemies_def
  by (rule forEach_pres, simp)+

lemma moveEnemies_nth:
  "\<forall>i < length (enemies s). \<exists>d.
      enemies (moveEnemies s) ! i = fst (moveOne (enemySpeed s) (player s) d (enemies s ! i))"
proof -
  let ?Q = "\<lambda>j (t::game_state). length (enemies t) = length (enemies s) \<and> player t = player s \<and>
      enemySpeed t = enemySpeed s \<and>
      (\<forall>i<j. \<exists>d. enemies t ! i = fst (moveOne (enemySpeed s) (player s) d (enemies s ! i))) \<and>
      (\<forall>i. j \<le> i \<longrightarrow> enemies t ! i = enemies s ! i)"
  have "?Q (length (enemies s))
          (forEach (\<lambda>s. length (enemies s)) moveEnemy 0 (length (enemies s)) s)"
  proof (rule forEach_inv_idx [where Q = "?Q"])
    show "?Q 0 s" by simp
    show "0 \<le> length (enemies s)" by simp
  next
    fix j and t :: game_state
    assume j: "j < length (enemies s)" and Q: "?Q j t"
    then have jt: "j < length (enemies t)" by simp
    have "?Q (Suc j) (moveEnemy j t)"
    proof (intro conjI allI impI)
      fix i assume "i < Suc j"
      show "\<exists>d. enemies (moveEnemy j t) ! i =
                fst (moveOne (enemySpeed s) (player s) d (enemies s ! i))"
      proof (cases "i = j")
        case True
        have "enemies (moveEnemy j t) ! j =
              fst (moveOne (enemySpeed s) (player s) (next_draw t) (enemies s ! j))"
          using Q jt by (simp add: moveEnemy_enemies)
        then show ?thesis using True by blast
      next
        case False
        then have "i < j" using \<open>i < Suc j\<close> by simp
        then show ?thesis using Q False by (simp add: moveEnemy_enemies)
      qed
    next
      fix i assume "Suc j \<le> i"
      then show "enemies (moveEnemy j t) ! i = enemies s ! i"
        using Q by (simp add: moveEnemy_enemies)
    qed (use Q in simp_all)
    then show "?Q (Suc j) (if j < length (enemies t) then moveEnemy j t else t)"
      using jt by simp
  qed
  then show ?thesis by (simp add: moveEnemies_def)
qed

lemma moveEnemies_in_field: "list_all (in_field PLAYER_SIZE) (enemies (moveEnemies s))"
  using moveEnemies_nth [of s] moveOne_props(1)
  by (auto simp: list_all_length)

subsection \<open>The round advance\<close>

lemma newRound_frame [simp]:
  "player (newRound s) = player s"
  "score (newRound s) = score s"
  "health (newRound s) = health s"
  "introComplete (newRound s) = introComplete s"
  "gameOver (newRound s) = gameOver s"
  "escapePressed (newRound s) = escapePressed s"
  "detached (newRound s) = detached s"
  "rnd (newRound s) = rnd s"
  "round_no (newRound s) = round_no s + 1"
  "enemySpeed (newRound s) = enemySpeed s + 1"
  "events (newRound s) = events s @ [NewRoundSound]"
  using newRound_eq [of s] by auto

lemma list_all_in_field_mono:
  "list_all (in_field ENEMY_SIZE) es \<Longrightarrow> list_all (in_field PLAYER_SIZE) es"
  by (induction es) (simp_all add: in_field_mono)

lemma newRound_enemies_in_field:
  "list_all (in_field PLAYER_SIZE) (enemies s) \<Longrightarrow>
   list_all (in_field PLAYER_SIZE) (enemies (newRound s))"
  using newRound_eq [of s] by (auto simp: list_all_in_field_mono)

subsection \<open>The callback of the collectibles loop\<close>

lemma collectCallback_miss:
  "\<not> touches COLLECTIBLE_SIZE (player t) (collectibles t ! k) \<Longrightarrow> collectCallback k t = t"
  by (auto simp: collectCallback_def touches_def Let_def)

lemma collectCallback_hit:
  "touches COLLECTIBLE_SIZE (player t) (collectibles t ! k) \<Longrightarrow>
   collectCallback k t =
     (if remove_at k (collectibles t) = []
      then newRound (t\<lparr>detached := detached t @ [(collectibles t ! k)\<lparr>visible := False\<rparr>],
                       collectibles := remove_at k (collectibles t),
                       score := score t + SCORE_PER_COLLECTIBLE,
                       events := events t @ [CollectSound]\<rparr>)
      else t\<lparr>detached := detached t @ [(collectibles t ! k)\<lparr>visible := False\<rparr>],
             collectibles := remove_at k (collectibles t),
             score := score t + SCORE_PER_COLLECTIBLE,
             events := events t @ [CollectSound]\<rparr>)"
  by (simp add: collectCallback_def touches_def Let_def)

lemma collectCallback_frame [simp]:
  "player (collectCallback k t) = player t"
  "health (collectCallback k t) = health t"
  "introComplete (collectCallback k t) = introComplete t"
  "gameOver (collectCallback k t) = gameOver t"
  "escapePressed (collectCallback k t) = escapePressed t"
  "rnd (collectCallback k t) = rnd t"
  by (cases "touches COLLECTIBLE_SIZE (player t) (collectibles t ! k)";
      simp add: collectCallback_miss collectCallback_hit)+

lemma collectCallback_enemies_in_field:
  "list_all (in_field PLAYER_SIZE) (enemies t) \<Longrightarrow>
   list_all (in_field PLAYER_SIZE) (enemies (collectCallback k t))"
  by (cases "touches COLLECTIBLE_SIZE (player t) (collectibles t ! k)")
     (simp_all add: collectCallback_miss collectCallback_hit newRound_enemies_in_field)

lemma collectibleCollisions_pres:
  "(\<And>j t. g (collectCallback j t) = g t) \<Longrightarrow> g (collectibleCollisions s) = g s"
  by (simp add: collectibleCollisions_def forEach_pres)

lemma collectibleCollisions_inv:
  "P s \<Longrightarrow> (\<And>j t. P t \<Longrightarrow> P (collectCallback j t)) \<Longrightarrow> P (collectibleCollisions s)"
  by (simp add: collectibleCollisions_def forEach_inv)

lemma collectibleCollisions_frame [simp]:
  "player (collectibleCollisions s) = player s"
  "health (collectibleCollisions s) = health s"
  "introComplete (collectibleCollisions s) = introComplete s"
  "gameOver (collectibleCollisions s) = gameOver s"
  "escapePressed (collectibleCollisions s) = escapePressed s"
  "rnd (collectibleCollisions s) = rnd s"
  by (rule collectibleCollisions_pres, simp)+

lemma collectibleCollisions_enemies_in_field:
  "list_all (in_field PLAYER_SIZE) (enemies s) \<Longrightarrow>
   list_all (in_field PLAYER_SIZE) (enemies (collectibleCollisions s))"
  by (rule collectibleCollisions_inv) (simp_all add: collectCallback_enemies_in_field)

subsection \<open>The callback of the damage loop\<close>

lemma enemyCallback_miss:
  "\<not> touches ENEMY_SIZE (player t) (enemies t ! k) \<Longrightarrow> enemyCallback k t = t"
  by (auto simp: enemyCallback_def touches_def Let_def)

lemma enemyCallback_hit:
  "touches ENEMY_SIZE (player t) (enemies t ! k) \<Longrightarrow>
   enemyCallback k t =
     (if health t - DAMAGE_PER_ENEMY \<le> 0
      then t\<lparr>health := health t - DAMAGE_PER_ENEMY,
             events := events t @ [DamageSound, GameOverScreen],
             gameOver := True,
             player := (player t)\<lparr>visible := False\<rparr>,
             enemies := setVisible False (enemies t),
             collectibles := setVisible False (collectibles t)\<rparr>
      else t\<lparr>health := health t - DAMAGE_PER_ENEMY, events := events t @ [DamageSound]\<rparr>)"
  by (simp add: enemyCallback_def touches_def Let_def)

lemma setVisible_props [simp]:
  "length (setVisible b xs) = length xs"
  "map pos_x (setVisible b xs) = map pos_x xs"
  "map pos_y (setVisible b xs) = map pos_y xs"
  "list_all (in_field n) (setVisible b xs) = list_all (in_field n) xs"
  "map visible (setVisible b xs) = replicate (length xs) b"
  by (induction xs) (simp_all add: setVisible_def)

lemma enemyCallback_frame [simp]:
  "score (enemyCallback k t) = score t"
  "round_no (enemyCallback k t) = round_no t"
  "enemySpeed (enemyCallback k t) = enemySpeed t"
  "introComplete (enemyCallback k t) = introComplete t"
  "escapePressed (enemyCallback k t) = escapePressed t"
  "detached (enemyCallback k t) = detached t"
  "rnd (enemyCallback k t) = rnd t"
  "draws (enemyCallback k t) = draws t"
  "length (enemies (enemyCallback k t)) = length (enemies t)"
  "length (collectibles (enemyCallback k t)) = length (collectibles t)"
  "pos_x (player (enemyCallback k t)) = pos_x (player t)"
  "pos_y (player (enemyCallback k t)) = pos_y (player t)"
  "map pos_x (enemies (enemyCallback k t)) = map pos_x (enemies t)"
  "map pos_y (enemies (enemyCallback k t)) = map pos_y (enemies t)"
  "list_all (in_field n) (enemies (enemyCallback k t)) = list_all (in_field n) (enemies t)"
  by (cases "touches ENEMY_SIZE (player t) (enemies t ! k)";
      simp add: enemyCallback_miss enemyCallback_hit)+

lemma enemyCollisions_pres:
  "(\<And>j t. g (enemyCallback j t) = g t) \<Longrightarrow> g (enemyCollisions s) = g s"
  by (simp add: enemyCollisions_def forEach_pres)

lemma enemyCollisions_inv:
  "P s \<Longrightarrow> (\<And>j t. P t \<Longrightarrow> P (enemyCallback j t)) \<Longrightarrow> P (enemyCollisions s)"
  by (simp add: enemyCollisions_def forEach_inv)

lemma enemyCollisions_frame [simp]:
  "score (enemyCollisions s) = score s"
  "round_no (enemyCollisions s) = round_no s"
  "enemySpeed (enemyCollisions s) = enemySpeed s"
  "introComplete (enemyCollisions s) = introComplete s"
  "escapePressed (enemyCollisions s) = escapePressed s"
  "detached (enemyCollisions s) = detached s"
  "rnd (enemyCollisions s) = rnd s"
  "draws (enemyCollisions s) = draws s"
  "length (enemies (enemyCollisions s)) = length (enemies s)"
  "length (collectibles (enemyCollisions s)) = length (collectibles s)"
  "pos_x (player (enemyCollisions s)) = pos_x (player s)"
  "pos_y (player (enemyCollisions s)) = pos_y (player s)"
  "map pos_x (enemies (enemyCollisions s)) = map pos_x (enemies s)"
  "map pos_y (enemies (enemyCollisions s)) = map pos_y (enemies s)"
  "list_all (in_field n) (enemies (enemyCollisions s)) = list_all (in_field n) (enemies s)"
  by (rule enemyCollisions_pres, simp)+

subsection \<open>A frame that reaches the gameplay\<close>

lemma update_gameplay:
  assumes "\<not> gameOver s" and "\<not> (escape_isDown inp \<and> \<not> escapePressed s)"
    and "\<not> (space_isDown inp \<and> introComplete s)"
  shows "update inp s =
     enemyCollisions (collectibleCollisions (moveEnemies (movePlayer inp
       (if \<not> escape_isDown inp then s\<lparr>escapePressed := False\<rparr> else s))))"
  using assms by (auto simp: update_def Let_def)

lemma movePlayer_in_field: "in_field PLAYER_SIZE (player (movePlayer inp s))"
  by (simp add: movePlayer_def Let_def in_field_def Clamp_def GAME_CONSTANTS)

lemma in_field_pos:
  "pos_x a = pos_x b \<Longrightarrow> pos_y a = pos_y b \<Longrightarrow> in_field n a = in_field n b"
  by (simp add: in_field_def)

lemma forEach_commute:
  assumes "\<And>j t. f j (h t) = h (f j t)" and "\<And>t. L (h t) = L t"
  shows "forEach L f k len (h s) = h (forEach L f k len s)"
proof (induction "len - k" arbitrary: k s)
  case 0
  then show ?case by (simp add: forEach_stop)
next
  case (Suc n)
  then have lt: "k < len" by simp
  have "forEach L f (Suc k) len (h (if k < L s then f k s else s)) =
        h (forEach L f (Suc k) len (if k < L s then f k s else s))"
    by (rule Suc.hyps(1)) (use Suc.hyps(2) in simp)
  then show ?case using lt by (cases "k < L s") (simp_all add: forEach_step assms)
qed

lemma next_draw_escapePressed [simp]: "next_draw (s\<lparr>escapePressed := b\<rparr>) = next_draw s"
  by (rule ext) (simp add: next_draw_def)

lemma moveEnemies_escapePressed:
  "moveEnemies (s\<lparr>escapePressed := b\<rparr>) = (moveEnemies s)\<lparr>escapePressed := b\<rparr>"
proof -
  have "forEach (\<lambda>s. length (enemies s)) moveEnemy 0 (length (enemies s))
          ((\<lambda>t. t\<lparr>escapePressed := b\<rparr>) s) =
        (\<lambda>t. t\<lparr>escapePressed := b\<rparr>)
          (forEach (\<lambda>s. length (enemies s)) moveEnemy 0 (length (enemies s)) s)"
    by (rule forEach_commute) (simp_all add: moveEnemy_def split_beta next_draw_def)
  then show ?thesis by (simp add: moveEnemies_def)
qed

lemma movePlayer_escapePressed:
  "movePlayer inp (s\<lparr>escapePressed := b\<rparr>) = (movePlayer inp s)\<lparr>escapePressed := b\<rparr>"
  by (simp add: movePlayer_def Let_def)

lemma moved_frame [simp]:
  "player (moved inp s) = player (movePlayer inp s)"
  "collectibles (moved inp s) = collectibles s"
  "score (moved inp s) = score s"
  "health (moved inp s) = health s"
  "round_no (moved inp s) = round_no s"
  "enemySpeed (moved inp s) = enemySpeed s"
  "introComplete (moved inp s) = introComplete s"
  "gameOver (moved inp s) = gameOver s"
  "detached (moved inp s) = detached s"
  "events (moved inp s) = events s"
  "length (enemies (moved inp s)) = length (enemies s)"
  by (simp_all add: moved_def movePlayer_cong)

lemma update_moved:
  assumes "\<not> gameOver s" and "\<not> (escape_isDown inp \<and> \<not> escapePressed s)"
    and "\<not> (space_isDown inp \<and> introComplete s)"
  shows "update inp s = enemyCollisions (collectibleCollisions (moved inp s))"
  using update_gameplay [OF assms] by (simp add: moved_def)

subsection \<open>The damage loop\<close>

lemma enemyCallback_hidden_player: "\<not> visible (player t) \<Longrightarrow> enemyCallback k t = t"
  by (simp add: enemyCallback_miss touches_def)

lemma enemy_loop_hidden_player:
  "\<not> visible (player t) \<Longrightarrow> forEach (\<lambda>s. length (enemies s)) enemyCallback k len t = t"
  by (rule forEach_inv [where P = "\<lambda>u. u = t"]) (simp_all add: enemyCallback_hidden_player)

lemma hits_needed:
  fixes h :: int
  shows "0 < h \<Longrightarrow> h \<le> 10 \<Longrightarrow> (h + 9) div 10 = 1"
    and "10 < h \<Longrightarrow> (h - 10 + 9) div 10 = (h + 9) div 10 - 1"
    and "10 < h \<Longrightarrow> 2 \<le> (h + 9) div 10"
  by presburger+

lemma enemy_loop_health:
  assumes "0 < health t" and "k \<le> length (enemies t)"
  shows "health (forEach (\<lambda>s. length (enemies s)) enemyCallback k (length (enemies t)) t) =
         health t - 10 * min (int (length (filter (touches ENEMY_SIZE (player t)) (drop k (enemies t)))))
                            ((health t + 9) div 10)"
  using assms
proof (induction "length (enemies t) - k" arbitrary: k t)
  case 0
  then show ?case by (simp add: forEach_stop)
next
  case (Suc n)
  then have lt: "k < length (enemies t)" by simp
  let ?e = "enemies t ! k"
  have dr: "drop k (enemies t) = ?e # drop (Suc k) (enemies t)"
    using lt by (simp add: Cons_nth_drop_Suc)
  have st: "forEach (\<lambda>s. length (enemies s)) enemyCallback k (length (enemies t)) t =
            forEach (\<lambda>s. length (enemies s)) enemyCallback (Suc k) (length (enemies t))
              (enemyCallback k t)"
    using lt by (simp add: forEach_step)
  show ?case
  proof (cases "touches ENEMY_SIZE (player t) ?e")
    case False
    have "health (forEach (\<lambda>s. length (enemies s)) enemyCallback (Suc k) (length (enemies t)) t) =
          health t - 10 * min (int (length (filter (touches ENEMY_SIZE (player t))
                                      (drop (Suc k) (enemies t))))) ((health t + 9) div 10)"
      by (rule Suc.hyps(1)) (use Suc.hyps(2) Suc.prems lt in simp_all)
    then show ?thesis using False by (simp add: st enemyCallback_miss dr)
  next
    case True
    show ?thesis
    proof (cases "health t \<le> 10")
      case h: True
      let ?t' = "enemyCallback k t"
      have t': "health ?t' = health t - 10" "\<not> visible (player ?t')"
        using True h by (simp_all add: enemyCallback_hit GAME_CONSTANTS)
      have "forEach (\<lambda>s. length (enemies s)) enemyCallback (Suc k) (length (enemies t)) ?t' = ?t'"
        using t'(2) by (rule enemy_loop_hidden_player)
      then show ?thesis
        using True h Suc.prems(1) t'(1) hits_needed(1) [of "health t"]
        by (simp add: st dr)
    next
      case h: False
      let ?t' = "t\<lparr>health := health t - 10, events := events t @ [DamageSound]\<rparr>"
      have cb: "enemyCallback k t = ?t'"
        using True h by (simp add: enemyCallback_hit GAME_CONSTANTS)
      have "health (forEach (\<lambda>s. length (enemies s)) enemyCallback (Suc k) (length (enemies ?t')) ?t') =
          health ?t' - 10 * min (int (length (filter (touches ENEMY_SIZE (player ?t'))
                                      (drop (Suc k) (enemies ?t'))))) ((health ?t' + 9) div 10)"
        by (rule Suc.hyps(1)) (use Suc.hyps(2) h lt in simp_all)
      then show ?thesis
        using True h hits_needed(2,3) [of "health t"]
        by (simp add: st cb dr min_def)
    qed
  qed
qed

lemma newRound_events_count [simp]:
  "count_list (events (newRound s)) GameOverScreen = count_list (events s) GameOverScreen"
  by simp

lemma collectCallback_game_over_count [simp]:
  "count_list (events (collectCallback k t)) GameOverScreen = count_list (events t) GameOverScreen"
  by (cases "touches COLLECTIBLE_SIZE (player t) (collectibles t ! k)")
     (simp_all add: collectCallback_miss collectCallback_hit)

lemma collectibleCollisions_game_over_count [simp]:
  "count_list (events (collectibleCollisions s)) GameOverScreen = count_list (events s) GameOverScreen"
  by (rule collectibleCollisions_pres) simp

lemma setVisible_False_hidden: "list_all (\<lambda>e. \<not> visible e) (setVisible False xs)"
  by (induction xs) (simp_all add: setVisible_def)

lemma enemy_loop_game_over:
  assumes "(\<not> gameOver t \<and> 0 < health t \<and> count_list (events t) GameOverScreen = c) \<or>
           (gameOver t \<and> health t \<le> 0 \<and> - DAMAGE_PER_ENEMY < health t \<and>
            \<not> visible (player t) \<and> list_all (\<lambda>e. \<not> visible e) (enemies t) \<and>
            list_all (\<lambda>e. \<not> visible e) (collectibles t) \<and>
            count_list (events t) GameOverScreen = c + 1)"
  shows "(\<not> gameOver (enemyCallback k t) \<and> 0 < health (enemyCallback k t) \<and>
            count_list (events (enemyCallback k t)) GameOverScreen = c) \<or>
         (gameOver (enemyCallback k t) \<and> health (enemyCallback k t) \<le> 0 \<and>
            - DAMAGE_PER_ENEMY < health (enemyCallback k t) \<and>
            \<not> visible (player (enemyCallback k t)) \<and>
            list_all (\<lambda>e. \<not> visible e) (enemies (enemyCallback k t)) \<and>
            list_all (\<lambda>e. \<not> visible e) (collectibles (enemyCallback k t)) \<and>
            count_list (events (enemyCallback k t)) GameOverScreen = c + 1)"
proof (cases "touches ENEMY_SIZE (player t) (enemies t ! k)")
  case False
  then show ?thesis using assms by (simp add: enemyCallback_miss)
next
  case True
  then have "visible (player t)" by (simp add: touches_def)
  then have a: "\<not> gameOver t" "0 < health t" "count_list (events t) GameOverScreen = c"
    using assms by auto
  show ?thesis
    using a True
    by (simp add: enemyCallback_hit setVisible_False_hidden GAME_CONSTANTS)
qed

lemma update_after_game_over:
  assumes "gameOver t"
  shows "gameOver (update inp t) \<and> score (update inp t) = score t \<and>
         health (update inp t) = health t \<and> round_no (update inp t) = round_no t \<and>
         count_list (events (update inp t)) GameOverScreen = count_list (events t) GameOverScreen"
  using assms by (simp add: update_def Let_def)

lemma update_health_early:
  assumes "gameOver s \<or> (escape_isDown inp \<and> \<not> escapePressed s) \<or>
           (space_isDown inp \<and> introComplete s)"
  shows "health (update inp s) = health s"
proof (cases "escape_isDown inp \<and> \<not> escapePressed s")
  case True
  then show ?thesis by (simp add: update_def)
next
  case False
  show ?thesis
  proof (cases "gameOver s")
    case True
    then show ?thesis using update_after_game_over by blast
  next
    case g: False
    then have "space_isDown inp \<and> introComplete s" using assms False by blast
    then show ?thesis using False g by (auto simp: update_def Let_def)
  qed
qed

lemma frames_after_game_over:
  "gameOver t \<Longrightarrow>
   gameOver (frames inps t) \<and> score (frames inps t) = score t \<and>
   health (frames inps t) = health t \<and> round_no (frames inps t) = round_no t \<and>
   count_list (events (frames inps t)) GameOverScreen = count_list (events t) GameOverScreen"
proof (induction inps arbitrary: t)
  case Nil
  then show ?case by simp
next
  case (Cons inp inps)
  have g: "gameOver (update inp t)" using Cons.prems update_after_game_over by blast
  show ?case
    using Cons.IH [OF g] update_after_game_over [OF Cons.prems, of inp] by simp
qed

lemma no_adjacent_tl: "no_adjacent P (x # xs) \<Longrightarrow> no_adjacent P xs"
  by (cases xs) simp_all

lemma collect_loop_idle:
  "length (collectibles t) \<le> k \<Longrightarrow>
   forEach (\<lambda>s. length (collectibles s)) collectCallback k len t = t"
proof (induction "len - k" arbitrary: k)
  case 0
  then show ?case by (simp add: forEach_stop)
next
  case (Suc n)
  then have lt: "k < len" by simp
  have "forEach (\<lambda>s. length (collectibles s)) collectCallback (Suc k) len t = t"
    by (rule Suc.hyps(1)) (use Suc.hyps(2) Suc.prems in simp_all)
  then show ?case using lt Suc.prems by (simp add: forEach_step)
qed

lemma remove_at_append: "length pre = k \<Longrightarrow> remove_at k (pre @ c # r) = pre @ r"
  by (simp add: remove_at_def)

lemma collect_loop_no_adjacent:
  assumes "collectibles t = pre @ rest" and "length pre = k"
    and "no_adjacent (touches COLLECTIBLE_SIZE (player t)) rest"
    and "k + length rest \<le> len"
    and "pre @ filter (Not \<circ> touches COLLECTIBLE_SIZE (player t)) rest \<noteq> []"
  shows "forEach (\<lambda>s. length (collectibles s)) collectCallback k len t =
         t\<lparr>collectibles := pre @ filter (Not \<circ> touches COLLECTIBLE_SIZE (player t)) rest,
           detached := detached t @
             map (\<lambda>c. c\<lparr>visible := False\<rparr>) (filter (touches COLLECTIBLE_SIZE (player t)) rest),
           score := score t +
             SCORE_PER_COLLECTIBLE * int (length (filter (touches COLLECTIBLE_SIZE (player t)) rest)),
           events := events t @
             replicate (length (filter (touches COLLECTIBLE_SIZE (player t)) rest)) CollectSound\<rparr>"
  using assms
proof (induction "length rest" arbitrary: rest k pre t rule: less_induct)
  case less
  let ?P = "touches COLLECTIBLE_SIZE (player t)"
  show ?case
  proof (cases rest)
    case Nil
    then have "forEach (\<lambda>s. length (collectibles s)) collectCallback k len t = t"
      using less.prems by (intro collect_loop_idle) simp
    then show ?thesis using Nil less.prems by simp
  next
    case (Cons c r)
    then have lt: "k < len" and kl: "k < length (collectibles t)" and ck: "collectibles t ! k = c"
      using less.prems by (simp_all add: nth_append)
    have st: "forEach (\<lambda>s. length (collectibles s)) collectCallback k len t =
              forEach (\<lambda>s. length (collectibles s)) collectCallback (Suc k) len (collectCallback k t)"
      using lt kl by (simp add: forEach_step)
    show ?thesis
    proof (cases "?P c")
      case False
      have cb: "collectCallback k t = t" using False ck by (simp add: collectCallback_miss)
      have "forEach (\<lambda>s. length (collectibles s)) collectCallback (Suc k) len t =
         t\<lparr>collectibles := (pre @ [c]) @ filter (Not \<circ> ?P) r,
           detached := detached t @ map (\<lambda>c. c\<lparr>visible := False\<rparr>) (filter ?P r),
           score := score t + SCORE_PER_COLLECTIBLE * int (length (filter ?P r)),
           events := events t @ replicate (length (filter ?P r)) CollectSound\<rparr>"
      proof (rule less.hyps)
        show "length r < length rest" using Cons by simp
        show "collectibles t = (pre @ [c]) @ r" using less.prems(1) Cons by simp
        show "length (pre @ [c]) = Suc k" using less.prems(2) by simp
        show "no_adjacent ?P r" using less.prems(3) unfolding Cons by (rule no_adjacent_tl)
        show "Suc k + length r \<le> len" using less.prems(4) Cons by simp
        show "(pre @ [c]) @ filter (Not \<circ> ?P) r \<noteq> []" by simp
      qed
      then show ?thesis using False Cons by (simp add: st cb)
    next
      case True
      let ?t1 = "t\<lparr>detached := detached t @ [c\<lparr>visible := False\<rparr>],
                    collectibles := pre @ r,
                    score := score t + SCORE_PER_COLLECTIBLE,
                    events := events t @ [CollectSound]\<rparr>"
      have ne: "pre @ r \<noteq> []"
        using less.prems(5) True Cons by auto
      have ra: "remove_at k (collectibles t) = pre @ r"
        using less.prems(1,2) Cons by (simp add: remove_at_append)
      have tc: "touches COLLECTIBLE_SIZE (player t) (collectibles t ! k)"
        using True ck by simp
      have ne': "remove_at k (collectibles t) \<noteq> []"
        using ne ra by simp
      have cb: "collectCallback k t = ?t1"
        unfolding collectCallback_hit [OF tc] if_not_P [OF ne'] by (simp add: ra ck)
      show ?thesis
      proof (cases r)
        case Nil
        have "forEach (\<lambda>s. length (collectibles s)) collectCallback (Suc k) len ?t1 = ?t1"
          using less.prems(2) Nil by (intro collect_loop_idle) simp
        then show ?thesis using True Cons Nil by (simp add: st cb)
      next
        case r: (Cons d r')
        have nd: "\<not> ?P d" using less.prems(3) Cons r True by simp
        have "forEach (\<lambda>s. length (collectibles s)) collectCallback (Suc k) len ?t1 =
           ?t1\<lparr>collectibles := (pre @ [d]) @ filter (Not \<circ> touches COLLECTIBLE_SIZE (player ?t1)) r',
             detached := detached ?t1 @ map (\<lambda>c. c\<lparr>visible := False\<rparr>)
                (filter (touches COLLECTIBLE_SIZE (player ?t1)) r'),
             score := score ?t1 + SCORE_PER_COLLECTIBLE *
                int (length (filter (touches COLLECTIBLE_SIZE (player ?t1)) r')),
             events := events ?t1 @
                replicate (length (filter (touches COLLECTIBLE_SIZE (player ?t1)) r')) CollectSound\<rparr>"
        proof (rule less.hyps)
          show "length r' < length rest" using Cons r by simp
          show "collectibles ?t1 = (pre @ [d]) @ r'" using r by simp
          show "length (pre @ [d]) = Suc k" using less.prems(2) by simp
          have "no_adjacent ?P (c # d # r')"
            using less.prems(3) Cons r by simp
          then have "no_adjacent ?P (d # r')" by simp
          then have "no_adjacent ?P r'" by (rule no_adjacent_tl)
          then show "no_adjacent (touches COLLECTIBLE_SIZE (player ?t1)) r'" by simp
          show "Suc k + length r' \<le> len" using less.prems(4) Cons r by simp
          show "(pre @ [d]) @ filter (Not \<circ> touches COLLECTIBLE_SIZE (player ?t1)) r' \<noteq> []" by simp
        qed
        then show ?thesis using True nd Cons r by (simp add: st cb GAME_CONSTANTS)
      qed
    qed
  qed
qed

subsection \<open>One frame's collecting\<close>

lemma no_adjacent_all_touched:
  "no_adjacent P cs \<Longrightarrow> filter (Not \<circ> P) cs = [] \<Longrightarrow> cs = [] \<or> (\<exists>c. cs = [c] \<and> P c)"
proof (cases cs)
  case Nil
  then show ?thesis by simp
next
  case (Cons c r)
  assume a: "no_adjacent P cs" "filter (Not \<circ> P) cs = []"
  show ?thesis
  proof (cases r)
    case Nil
    then show ?thesis using a Cons by (cases "P c") simp_all
  next
    case r: (Cons d r')
    have "P c \<and> P d" using a(2) Cons r by (cases "P c"; cases "P d") simp_all
    then show ?thesis using a(1) Cons r by simp
  qed
qed

lemma enemyCollisions_groups:
  "(collectibles (enemyCollisions t) = collectibles t \<or>
    collectibles (enemyCollisions t) = setVisible False (collectibles t)) \<and>
   (enemies (enemyCollisions t) = enemies t \<or>
    enemies (enemyCollisions t) = setVisible False (enemies t))"
proof (rule enemyCollisions_inv
    [where P = "\<lambda>u. (collectibles u = collectibles t \<or> collectibles u = setVisible False (collectibles t)) \<and>
                    (enemies u = enemies t \<or> enemies u = setVisible False (enemies t))"])
  show "(collectibles t = collectibles t \<or> collectibles t = setVisible False (collectibles t)) \<and>
        (enemies t = enemies t \<or> enemies t = setVisible False (enemies t))" by simp
next
  fix j and u :: game_state
  assume a: "(collectibles u = collectibles t \<or> collectibles u = setVisible False (collectibles t)) \<and>
             (enemies u = enemies t \<or> enemies u = setVisible False (enemies t))"
  have idem: "setVisible False (setVisible False xs) = setVisible False xs" for xs :: "'a sprite_scheme list"
    by (simp add: setVisible_def)
  show "(collectibles (enemyCallback j u) = collectibles t \<or>
         collectibles (enemyCallback j u) = setVisible False (collectibles t)) \<and>
        (enemies (enemyCallback j u) = enemies t \<or>
         enemies (enemyCallback j u) = setVisible False (enemies t))"
  proof (cases "touches ENEMY_SIZE (player u) (enemies u ! j)")
    case False
    then show ?thesis using a by (simp add: enemyCallback_miss)
  next
    case True
    show ?thesis
    proof (cases "health u - DAMAGE_PER_ENEMY \<le> 0")
      case h: True
      have "collectibles (enemyCallback j u) = setVisible False (collectibles u)"
           "enemies (enemyCallback j u) = setVisible False (enemies u)"
        using True h by (simp_all add: enemyCallback_hit)
      then show ?thesis using a idem by metis
    next
      case h: False
      then show ?thesis using a True by (simp add: enemyCallback_hit)
    qed
  qed
qed

lemma collect_frame:
  assumes "introComplete t" and "\<not> gameOver t"
    and "no_adjacent (touches COLLECTIBLE_SIZE (player t)) (collectibles t)"
  shows "detached (collectibleCollisions t) = detached t @
           map (\<lambda>c. c\<lparr>visible := False\<rparr>) (filter (touches COLLECTIBLE_SIZE (player t)) (collectibles t))"
    and "score (collectibleCollisions t) = score t +
           SCORE_PER_COLLECTIBLE * int (length (filter (touches COLLECTIBLE_SIZE (player t)) (collectibles t)))"
    and "filter (Not \<circ> touches COLLECTIBLE_SIZE (player t)) (collectibles t) \<noteq> [] \<Longrightarrow>
         collectibles (collectibleCollisions t) =
           filter (Not \<circ> touches COLLECTIBLE_SIZE (player t)) (collectibles t)"
proof -
  let ?P = "touches COLLECTIBLE_SIZE (player t)"
  let ?loop = "forEach (\<lambda>s. length (collectibles s)) collectCallback 0 (length (collectibles t)) t"
  have cc: "collectibleCollisions t = ?loop"
    using assms(1,2) by (simp add: collectibleCollisions_def)
  have main: "?loop =
         t\<lparr>collectibles := [] @ filter (Not \<circ> ?P) (collectibles t),
           detached := detached t @ map (\<lambda>c. c\<lparr>visible := False\<rparr>) (filter ?P (collectibles t)),
           score := score t + SCORE_PER_COLLECTIBLE * int (length (filter ?P (collectibles t))),
           events := events t @ replicate (length (filter ?P (collectibles t))) CollectSound\<rparr>"
    if "filter (Not \<circ> ?P) (collectibles t) \<noteq> []"
    by (rule collect_loop_no_adjacent) (use that assms(3) in simp_all)
  show "filter (Not \<circ> ?P) (collectibles t) \<noteq> [] \<Longrightarrow>
         collectibles (collectibleCollisions t) = filter (Not \<circ> ?P) (collectibles t)"
    using main by (simp add: cc)
  have both: "detached ?loop = detached t @ map (\<lambda>c. c\<lparr>visible := False\<rparr>) (filter ?P (collectibles t)) \<and>
        score ?loop = score t + SCORE_PER_COLLECTIBLE * int (length (filter ?P (collectibles t)))"
  proof (cases "filter (Not \<circ> ?P) (collectibles t) = []")
    case False
    then show ?thesis using main by simp
  next
    case True
    then consider "collectibles t = []" | c where "collectibles t = [c]" "?P c"
      using no_adjacent_all_touched [OF assms(3)] by blast
    then show ?thesis
    proof cases
      case 1
      then show ?thesis by (simp add: forEach_stop)
    next
      case 2
      have tc: "touches COLLECTIBLE_SIZE (player t) (collectibles t ! 0)" using 2 by simp
      have "?loop = collectCallback 0 t"
        using 2 by (simp add: forEach_step forEach_stop)
      then show ?thesis
        using 2 by (simp add: collectCallback_hit [OF tc] remove_at_def)
    qed
  qed
  then show "detached (collectibleCollisions t) = detached t @
           map (\<lambda>c. c\<lparr>visible := False\<rparr>) (filter ?P (collectibles t))"
    and "score (collectibleCollisions t) = score t +
           SCORE_PER_COLLECTIBLE * int (length (filter ?P (collectibles t)))"
    by (simp_all add: cc)
qed

subsection \<open>The round advance within a frame\<close>

lemma length_remove_at: "j < length xs \<Longrightarrow> length (remove_at j xs) = length xs - 1"
  by (simp add: remove_at_def)

lemma enemyCallback_new_round_count [simp]:
  "count_list (events (enemyCallback k t)) NewRoundSound = count_list (events t) NewRoundSound"
  by (cases "touches ENEMY_SIZE (player t) (enemies t ! k)")
     (simp_all add: enemyCallback_miss enemyCallback_hit)

lemma enemyCollisions_new_round_count [simp]:
  "count_list (events (enemyCollisions s)) NewRoundSound = count_list (events s) NewRoundSound"
  by (rule enemyCollisions_pres) simp

lemma update_new_round_early:
  assumes "gameOver s \<or> (escape_isDown inp \<and> \<not> escapePressed s) \<or>
           (space_isDown inp \<and> introComplete s)"
  shows "count_list (events (update inp s)) NewRoundSound = count_list (events s) NewRoundSound"
proof (cases "escape_isDown inp \<and> \<not> escapePressed s")
  case True
  then show ?thesis by (simp add: update_def)
next
  case False
  show ?thesis
  proof (cases "gameOver s")
    case True
    then show ?thesis using False by (simp add: update_def Let_def)
  next
    case g: False
    then have "space_isDown inp \<and> introComplete s" using assms False by blast
    then show ?thesis using False g by (auto simp: update_def Let_def)
  qed
qed

lemma respawnCollectibles_exact:
  "for_loop n respawnCollectible s =
     s\<lparr>collectibles := collectibles s @
         map (\<lambda>i. \<lparr>pos_x = real_of_int (Between COLLECTIBLE_SIZE (WIDTH - COLLECTIBLE_SIZE)
                                         (rnd s (draws s + 2 * i))),
                    pos_y = real_of_int (Between COLLECTIBLE_SIZE (HEIGHT - COLLECTIBLE_SIZE)
                                         (rnd s (draws s + 2 * i + 1))),
                    visible = True\<rparr>) [0..<n],
       draws := draws s + 2 * n\<rparr>"
proof (induction n)
  case 0
  show ?case by simp
next
  case (Suc n)
  let ?sn = "s\<lparr>collectibles := collectibles s @
         map (\<lambda>i. \<lparr>pos_x = real_of_int (Between COLLECTIBLE_SIZE (WIDTH - COLLECTIBLE_SIZE)
                                         (rnd s (draws s + 2 * i))),
                    pos_y = real_of_int (Between COLLECTIBLE_SIZE (HEIGHT - COLLECTIBLE_SIZE)
                                         (rnd s (draws s + 2 * i + 1))),
                    visible = True\<rparr>) [0..<n],
       draws := draws s + 2 * n\<rparr>"
  have "for_loop (Suc n) respawnCollectible s = respawnCollectible (for_loop n respawnCollectible s)"
    by (rule for_loop_Suc_end)
  also have "\<dots> = respawnCollectible ?sn"
    by (simp only: Suc.IH)
  also have "\<dots> = ?sn\<lparr>collectibles := collectibles ?sn @
         [\<lparr>pos_x = real_of_int (Between COLLECTIBLE_SIZE (WIDTH - COLLECTIBLE_SIZE)
                                         (rnd s (draws s + 2 * n))),
           pos_y = real_of_int (Between COLLECTIBLE_SIZE (HEIGHT - COLLECTIBLE_SIZE)
                                         (rnd s (draws s + 2 * n + 1))),
           visible = True\<rparr>],
        draws := draws ?sn + 2\<rparr>"
    by (simp add: respawnCollectible_def createCollectible_def add_sprite_def next_draw_def Let_def)
  finally show ?case by simp
qed

lemma addRoundEnemy_exact:
  "addRoundEnemy s =
     s\<lparr>enemies := enemies s @
         [\<lparr>pos_x = real_of_int (Between ENEMY_SIZE (WIDTH - ENEMY_SIZE) (rnd s (draws s + 1))),
           pos_y = real_of_int (Between ENEMY_SIZE (HEIGHT - ENEMY_SIZE) (rnd s (draws s + 2))),
           visible = True, etype = pick ENEMY_TYPES (rnd s (draws s)),
           moveCounter = 0, moveDirection = Between 0 3 (rnd s (draws s + 3))\<rparr>],
       draws := draws s + 4\<rparr>"
  by (simp add: addRoundEnemy_def createEnemy_def next_draw_def Let_def)

lemma newRound_exact:
  "newRound s =
     (let s1 = s\<lparr>round_no := round_no s + 1, enemySpeed := enemySpeed s + 1,
                 events := events s @ [NewRoundSound],
                 collectibles := collectibles s @
                   map (\<lambda>i. \<lparr>pos_x = real_of_int (Between COLLECTIBLE_SIZE (WIDTH - COLLECTIBLE_SIZE)
                                         (rnd s (draws s + 2 * i))),
                              pos_y = real_of_int (Between COLLECTIBLE_SIZE (HEIGHT - COLLECTIBLE_SIZE)
                                         (rnd s (draws s + 2 * i + 1))),
                              visible = True\<rparr>) [0..<COLLECTIBLE_COUNT],
                 draws := draws s + 2 * COLLECTIBLE_COUNT\<rparr>
      in if 2 \<le> round_no s + 1
         then s1\<lparr>enemies := enemies s @
                [\<lparr>pos_x = real_of_int (Between ENEMY_SIZE (WIDTH - ENEMY_SIZE)
                                       (rnd s (draws s + 2 * COLLECTIBLE_COUNT + 1))),
                  pos_y = real_of_int (Between ENEMY_SIZE (HEIGHT - ENEMY_SIZE)
                                       (rnd s (draws s + 2 * COLLECTIBLE_COUNT + 2))),
                  visible = True,
                  etype = pick ENEMY_TYPES (rnd s (draws s + 2 * COLLECTIBLE_COUNT)),
                  moveCounter = 0,
                  moveDirection = Between 0 3 (rnd s (draws s + 2 * COLLECTIBLE_COUNT + 3))\<rparr>],
                draws := draws s + 2 * COLLECTIBLE_COUNT + 4\<rparr>
         else s1)"
  by (simp add: newRound_def Let_def respawnCollectibles_exact addRoundEnemy_exact)

lemma moveEnemies_etype: "map etype (enemies (moveEnemies s)) = map etype (enemies s)"
proof (rule nth_equalityI)
  show "length (map etype (enemies (moveEnemies s))) = length (map etype (enemies s))" by simp
next
  fix i assume "i < length (map etype (enemies (moveEnemies s)))"
  then have i: "i < length (enemies s)" by simp
  then obtain d where "enemies (moveEnemies s) ! i =
      fst (moveOne (enemySpeed s) (player s) d (enemies s ! i))"
    using moveEnemies_nth by blast
  then show "map etype (enemies (moveEnemies s)) ! i = map etype (enemies s) ! i"
    using i by (simp add: moveOne_props)
qed

lemma moved_more [simp]:
  "rnd (moved inp s) = rnd s"
  "map etype (enemies (moved inp s)) = map etype (enemies s)"
  by (simp_all add: moved_def moveEnemies_etype)

lemma setVisible_enemy_props [simp]:
  "map etype (setVisible b es) = map etype es"
  by (simp add: setVisible_def)

lemma enemyCollisions_kept:
  "map etype (enemies (enemyCollisions t)) = map etype (enemies t)"
  "map pos_x (collectibles (enemyCollisions t)) = map pos_x (collectibles t)"
  "map pos_y (collectibles (enemyCollisions t)) = map pos_y (collectibles t)"
  "list_all (in_field n) (collectibles (enemyCollisions t)) = list_all (in_field n) (collectibles t)"
  using enemyCollisions_groups [of t] by auto

lemma last_collectible_collected:
  assumes "introComplete t" and "\<not> gameOver t" and "collectibles t = [c]"
    and "touches COLLECTIBLE_SIZE (player t) c"
  shows "collectibleCollisions t =
           newRound (t\<lparr>detached := detached t @ [c\<lparr>visible := False\<rparr>],
                       collectibles := [],
                       score := score t + SCORE_PER_COLLECTIBLE,
                       events := events t @ [CollectSound]\<rparr>)"
proof -
  have tc: "touches COLLECTIBLE_SIZE (player t) (collectibles t ! 0)"
    using assms(3,4) by simp
  have "collectibleCollisions t = collectCallback 0 t"
    using assms(1,2,3) by (simp add: collectibleCollisions_def forEach_step forEach_stop)
  then show ?thesis
    using assms(3) by (simp add: collectCallback_hit [OF tc] remove_at_def)
qed

lemma collect_loop_trigger:
  fixes t :: game_state
  shows
  "count_list (events (collectibleCollisions t)) NewRoundSound =
     count_list (events t) NewRoundSound \<or>
   (introComplete t \<and> \<not> gameOver t \<and>
    (\<exists>c. collectibles t = [c] \<and> touches COLLECTIBLE_SIZE (player t) c))"
proof (cases "introComplete t \<and> \<not> gameOver t")
  case False
  then have "collectibleCollisions t = t" by (auto simp: collectibleCollisions_def)
  then show ?thesis by simp
next
  case True
  let ?len = "length (collectibles t)"
  let ?T = "\<exists>c. collectibles t = [c] \<and> touches COLLECTIBLE_SIZE (player t) c"
  let ?A = "\<lambda>j (u::game_state).
      count_list (events u) NewRoundSound = count_list (events t) NewRoundSound \<and>
      (j = 0 \<longrightarrow> collectibles u = collectibles t \<and> player u = player t)"
  let ?Q = "\<lambda>j u. ?A j u \<or> ?T"
  have "?Q ?len (forEach (\<lambda>s. length (collectibles s)) collectCallback 0 ?len t)"
  proof (rule forEach_inv_idx [where Q = ?Q])
    show "?Q 0 t" by simp
    show "0 \<le> ?len" by simp
  next
    fix j and u :: game_state
    assume j: "j < ?len" and Q: "?Q j u"
    show "?Q (Suc j) (if j < length (collectibles u) then collectCallback j u else u)"
    proof (cases ?T)
      case True
      then show ?thesis by simp
    next
      case noT: False
      then have A: "?A j u" using Q by blast
      show ?thesis
      proof (cases "j < length (collectibles u) \<and>
                    touches COLLECTIBLE_SIZE (player u) (collectibles u ! j)")
        case False
        then have "(if j < length (collectibles u) then collectCallback j u else u) = u"
          by (auto simp: collectCallback_miss)
        then show ?thesis using A by simp
      next
        case hit: True
        have nonempty: "remove_at j (collectibles u) \<noteq> []"
        proof
          assume empty: "remove_at j (collectibles u) = []"
          have l1: "length (collectibles u) = 1"
            using length_remove_at [of j "collectibles u"] hit empty by simp
          then have j0: "j = 0" using hit by simp
          then have same: "collectibles u = collectibles t" "player u = player t"
            using A by simp_all
          obtain c where c: "collectibles t = [c]"
            using l1 same(1) by (cases "collectibles t") simp_all
          have "touches COLLECTIBLE_SIZE (player t) c"
            using hit j0 same c by simp
          then show False using noT c by blast
        qed
        have "collectCallback j u =
            u\<lparr>detached := detached u @ [(collectibles u ! j)\<lparr>visible := False\<rparr>],
              collectibles := remove_at j (collectibles u),
              score := score u + SCORE_PER_COLLECTIBLE,
              events := events u @ [CollectSound]\<rparr>"
          using hit nonempty by (simp add: collectCallback_hit)
        then show ?thesis using A hit by simp
      qed
    qed
  qed
  moreover have "collectibleCollisions t =
      forEach (\<lambda>s. length (collectibles s)) collectCallback 0 ?len t"
    using True by (simp add: collectibleCollisions_def)
  ultimately show ?thesis using True by auto
qed

lemma squares_not_negative: "0 \<le> c \<Longrightarrow> \<not> (c + a\<^sup>2 < (0::real))"
proof -
  assume "0 \<le> c"
  moreover have "0 \<le> a\<^sup>2" by simp
  ultimately show ?thesis by linarith
qed

lemma patrol_frame: "k < 60 \<Longrightarrow> update no_keys (patrol_after k) = patrol_after (Suc k)"
  apply (simp add: patrol_after_def no_keys_def stage_player)
  apply (simp add: stage_enemies)?
  apply (simp add: collectibleCollisions_def collectCallback_def remove_at_def
      Distance_less_iff forEach_step forEach_stop Let_def GAME_CONSTANTS)?
  apply (simp add: enemyCollisions_def enemyCallback_def setVisible_def
      Distance_less_iff forEach_step forEach_stop Let_def GAME_CONSTANTS)?
  apply (simp add: squares_not_negative)?
  apply (simp add: field_simps)?
  done

lemma frames_append: "frames (xs @ ys) s = frames ys (frames xs s)"
  by (induction xs arbitrary: s) simp_all

subsection \<open>Sixty frames of a patrol enemy\<close>

lemma patrol_frames: "k + n \<le> 60 \<Longrightarrow> frames (replicate n no_keys) (patrol_after k) = patrol_after (k + n)"
proof (induction n arbitrary: k)
  case 0
  then show ?case by simp
next
  case (Suc n)
  then have "k < 60" by simp
  then have "update no_keys (patrol_after k) = patrol_after (Suc k)" by (rule patrol_frame)
  moreover have "frames (replicate n no_keys) (patrol_after (Suc k)) = patrol_after (Suc k + n)"
    by (rule Suc.IH) (use Suc.prems in simp)
  ultimately show ?case by simp
qed

lemma patrol_61st_frame:
  "map moveCounter (enemies (update no_keys (patrol_after 60))) = [0] \<and>
   map moveDirection (enemies (update no_keys (patrol_after 60))) = [1]"
  apply (simp add: patrol_after_def no_keys_def stage_player)
  apply (simp add: stage_enemies)?
  apply (simp add: stage_collect)?
  apply (simp add: stage_damage)?
  done
section \<open>The claims\<close>

subsection \<open>C8: the reset\<close>

text \<open>
  C8. \<^verbatim>\<open>returnToStartScreen\<close>, from any state, gives the canonical initial state:
  score 0, health \<open>MAX_HEALTH\<close>, round 1, enemy speed \<open>ENEMY_SPEED\<close>, neither playing nor
  game over, \<open>ENEMY_COUNT\<close> enemies, all of type \<open>Random\<close>, \<open>COLLECTIBLE_COUNT\<close>
  collectibles, the player and every enemy and collectible hidden; calling it twice in a
  row gives a canonical state both times.
\<close>

theorem reset_restores_initial_state:
  "canonical (returnToStartScreen s) \<and>
   canonical (returnToStartScreen (returnToStartScreen s))"
  by (simp add: returnToStartScreen_canonical)

theorem reset_restores_initial_state_witness:
  "canonical (returnToStartScreen playing) \<and>
   canonical (returnToStartScreen (returnToStartScreen playing))"
  by (rule reset_restores_initial_state [of playing])

subsection \<open>C9: visibility of spawned entities\<close>

text \<open>
  C9, as amended. The factory creates visible sprites. \<^verbatim>\<open>create\<close> and
  \<^verbatim>\<open>returnToStartScreen\<close> hide every enemy and collectible they spawn (and
  \<^verbatim>\<open>create\<close> hides the player); the collectibles and the enemy spawned by a round
  advance stay visible.
\<close>

theorem spawned_entities_visibility:
  "map_option visible (createCollectible x y) = Some True \<and>
   map_option visible (createEnemy x y t d) = Some True \<and>
   \<not> visible (player (create r)) \<and>
   map visible (enemies (create r)) = replicate ENEMY_COUNT False \<and>
   map visible (collectibles (create r)) = replicate COLLECTIBLE_COUNT False \<and>
   map visible (enemies (returnToStartScreen s)) = replicate ENEMY_COUNT False \<and>
   map visible (collectibles (returnToStartScreen s)) = replicate COLLECTIBLE_COUNT False \<and>
   map visible (drop (length (collectibles s)) (collectibles (newRound s)))
     = replicate COLLECTIBLE_COUNT True \<and>
   (1 \<le> round_no s \<longrightarrow>
      map visible (drop (length (enemies s)) (enemies (newRound s))) = [True])"
proof -
  obtain cs es where n: "newRound s =
       s\<lparr>round_no := round_no s + 1, enemySpeed := enemySpeed s + 1,
         events := events s @ [NewRoundSound],
         collectibles := collectibles s @ cs, enemies := enemies s @ es,
         draws := draws s + 2 * COLLECTIBLE_COUNT + 4 * length es\<rparr>"
     "map visible cs = replicate COLLECTIBLE_COUNT True"
     "length es = (if round_no s + 1 \<ge> 2 then 1 else 0)"
     "list_all visible es"
    using newRound_eq by blast
  have e1: "1 \<le> round_no s \<Longrightarrow> map visible es = [True]"
    using n(3,4) by (cases es) auto
  have c: "canonical (returnToStartScreen s)" by (rule returnToStartScreen_canonical)
  show ?thesis
    using create_hidden [of r] c n(2) e1
    by (simp add: n(1) canonical_def createCollectible_def createEnemy_def add_sprite_def)
qed

theorem spawned_entities_visibility_witness:
  "1 \<le> round_no last_item \<and>
   map visible (drop (length (enemies last_item)) (enemies (newRound last_item))) = [True] \<and>
   map visible (drop (length (collectibles last_item)) (collectibles (newRound last_item)))
     = replicate COLLECTIBLE_COUNT True \<and>
   map visible (collectibles (returnToStartScreen last_item)) = replicate COLLECTIBLE_COUNT False"
  using spawned_entities_visibility [of 0 0 Random 0 "\<lambda>_. 0" last_item]
  by (simp add: last_item_def)

text \<open>
  The claim as stated fails on the frame that collects the last collectible of round 1:
  the ten collectibles and the enemy that the round advance spawns are visible.
\<close>

theorem spawned_invisible_counterexample:
  "map visible (collectibles (update no_keys last_item)) = replicate 10 True \<and>
   map visible (enemies (update no_keys last_item)) = [True]"
  apply (simp add: last_item_def no_keys_def stage_player)
  apply (simp add: stage_enemies)?
  apply (simp add: stage_collect)?
  apply (simp add: newRound_def Let_def GAME_CONSTANTS eval_nat_numeral)?
  apply (simp add: stage_round)?
  apply (simp add: stage_damage)?
  done

subsection \<open>C10: the spacebar during active gameplay\<close>

text \<open>
  C10, as amended. When the spacebar is held in a frame of active gameplay (intro
  complete, not game over), the enemies, the collectibles, the score, the health and the
  round are unchanged by the frame; the player is moved and clamped as in any frame,
  unless the escape key is newly pressed in that frame, which ends it before the player
  moves.
\<close>

theorem spacebar_blocks_gameplay:
  assumes "space_isDown inp" and "introComplete s" and "\<not> gameOver s"
  shows "enemies (update inp s) = enemies s \<and>
         collectibles (update inp s) = collectibles s \<and>
         score (update inp s) = score s \<and>
         health (update inp s) = health s \<and>
         round_no (update inp s) = round_no s \<and>
         (\<not> (escape_isDown inp \<and> \<not> escapePressed s) \<longrightarrow>
            player (update inp s) = player (movePlayer inp s))"
  using assms by (simp add: update_def Let_def movePlayer_cong)

theorem spacebar_blocks_gameplay_witness:
  "space_isDown space_right \<and> introComplete playing \<and> \<not> gameOver playing \<and>
   \<not> (escape_isDown space_right \<and> \<not> escapePressed playing) \<and>
   enemies (update space_right playing) = enemies playing \<and>
   collectibles (update space_right playing) = collectibles playing \<and>
   score (update space_right playing) = 0 \<and>
   health (update space_right playing) = 100 \<and>
   round_no (update space_right playing) = 1 \<and>
   player (update space_right playing) = \<lparr>pos_x = 105, pos_y = 100, visible = True\<rparr>"
  using spacebar_blocks_gameplay [of space_right playing]
  by (simp add: space_right_def no_keys_def playing_def movePlayer_def Clamp_def Let_def
      GAME_CONSTANTS)

text \<open>
  The claim as stated fails when the escape key is newly pressed in the same frame: the
  frame ends before the player moves, although the left arrow is held.
\<close>

theorem spacebar_player_moves_counterexample:
  "space_isDown space_escape_left \<and> left_isDown space_escape_left \<and>
   introComplete playing \<and> \<not> gameOver playing \<and>
   player (update space_escape_left playing) = player playing \<and>
   pos_x (player (movePlayer space_escape_left playing)) = 95"
  by (simp add: space_escape_left_def no_keys_def playing_def update_def movePlayer_def
      Clamp_def Let_def GAME_CONSTANTS)

subsection \<open>C4: the clamp\<close>

text \<open>
  C4, as amended. In every frame that moves the player (the game is not over and the
  escape key is not newly pressed), the player ends within \<open>[32, 768] \<times> [32, 568]\<close>;
  if the frame also moves the enemies (the spacebar does not block it), every enemy ends
  within the same bounds: the enemies are clamped with \<open>PLAYER_SIZE\<close> (32), like the
  player, not with \<open>ENEMY_SIZE\<close> (48).
\<close>

theorem clamp_keeps_entities_in_field:
  assumes "\<not> gameOver s" and "\<not> (escape_isDown inp \<and> \<not> escapePressed s)"
  shows "in_field PLAYER_SIZE (player (update inp s)) \<and>
         (\<not> (space_isDown inp \<and> introComplete s) \<longrightarrow>
            list_all (in_field PLAYER_SIZE) (enemies (update inp s)))"
proof (cases "space_isDown inp \<and> introComplete s")
  case True
  then show ?thesis
    using assms by (auto simp: update_def Let_def movePlayer_in_field)
next
  case False
  let ?s0 = "if \<not> escape_isDown inp then s\<lparr>escapePressed := False\<rparr> else s"
  have u: "update inp s = enemyCollisions (collectibleCollisions (moveEnemies (movePlayer inp ?s0)))"
    using assms False by (rule update_gameplay)
  have "in_field PLAYER_SIZE (player (update inp s)) = in_field PLAYER_SIZE (player (movePlayer inp ?s0))"
    unfolding u by (rule in_field_pos) simp_all
  moreover have "list_all (in_field PLAYER_SIZE) (enemies (update inp s))"
    unfolding u by (simp add: collectibleCollisions_enemies_in_field moveEnemies_in_field)
  ultimately show ?thesis by (simp add: movePlayer_in_field)
qed

theorem clamp_keeps_entities_in_field_witness:
  "\<not> gameOver near_wall \<and> \<not> (escape_isDown no_keys \<and> \<not> escapePressed near_wall) \<and>
   \<not> (space_isDown no_keys \<and> introComplete near_wall) \<and>
   in_field PLAYER_SIZE (player (update no_keys near_wall)) \<and>
   list_all (in_field PLAYER_SIZE) (enemies (update no_keys near_wall))"
  using clamp_keeps_entities_in_field [of near_wall no_keys]
  by (simp add: near_wall_def no_keys_def)

text \<open>
  The claim as stated fails for an enemy at the left bound: it is clamped to \<open>x = 32\<close>,
  which is less than its own size 48.
\<close>

theorem enemy_clamp_counterexample:
  "map pos_x (enemies (update no_keys near_wall)) = [32] \<and>
   \<not> list_all (in_field ENEMY_SIZE) (enemies (update no_keys near_wall))"
  apply (simp add: near_wall_def no_keys_def stage_player)
  apply (simp add: stage_enemies)?
  apply (simp add: stage_collect)?
  apply (simp add: stage_damage in_field_def)?
  done

subsection \<open>C7: where movement is inert\<close>

text \<open>
  C7, as amended. When the game is over, or the escape key is newly pressed, the frame
  changes no player, enemy or collectible. When the intro is not complete (and the game
  is not over), the frame still moves the player by the arrow keys and the enemies by
  their types, whether they are visible or not; the one dependence on visibility is that
  a chaser does not move while the player is hidden.
\<close>

theorem movement_inert_when_game_over:
  "(gameOver s \<or> (escape_isDown inp \<and> \<not> escapePressed s) \<longrightarrow>
      player (update inp s) = player s \<and> enemies (update inp s) = enemies s \<and>
      collectibles (update inp s) = collectibles s) \<and>
   (\<not> gameOver s \<and> \<not> (escape_isDown inp \<and> \<not> escapePressed s) \<and> \<not> introComplete s \<longrightarrow>
      player (update inp s) = player (movePlayer inp s) \<and>
      enemies (update inp s) = enemies (moveEnemies (movePlayer inp s)) \<and>
      collectibles (update inp s) = collectibles s) \<and>
   (etype e = Chaser \<and> \<not> visible p \<and> in_field PLAYER_SIZE e \<longrightarrow> moveOne v p d e = (e, 0))"
proof -
  have c1: "player (update inp s) = player s \<and> enemies (update inp s) = enemies s \<and>
      collectibles (update inp s) = collectibles s"
    if "gameOver s \<or> (escape_isDown inp \<and> \<not> escapePressed s)"
    using that by (auto simp: update_def Let_def)
  have c2: "player (update inp s) = player (movePlayer inp s) \<and>
      enemies (update inp s) = enemies (moveEnemies (movePlayer inp s)) \<and>
      collectibles (update inp s) = collectibles s"
    if a: "\<not> gameOver s \<and> \<not> (escape_isDown inp \<and> \<not> escapePressed s) \<and> \<not> introComplete s"
  proof -
    have u: "update inp s = enemyCollisions (collectibleCollisions (moveEnemies (movePlayer inp
         (if \<not> escape_isDown inp then s\<lparr>escapePressed := False\<rparr> else s))))"
      using update_gameplay [of s inp] a by simp
    show ?thesis
      unfolding u using a
      by (simp add: enemyCollisions_def collectibleCollisions_def moveEnemies_escapePressed
          movePlayer_escapePressed)
  qed
  have c3: "moveOne v p d e = (e, 0)"
    if "etype e = Chaser \<and> \<not> visible p \<and> in_field PLAYER_SIZE e"
    using that by (simp add: moveOne_chaser_hidden_player)
  show ?thesis using c1 c2 c3 by blast
qed

theorem movement_inert_when_game_over_witness:
  "(escape_isDown space_escape_left \<and> \<not> escapePressed playing) \<and>
   player (update space_escape_left playing) = player playing \<and>
   enemies (update space_escape_left playing) = enemies playing \<and>
   collectibles (update space_escape_left playing) = collectibles playing \<and>
   \<not> gameOver attract \<and> \<not> (escape_isDown right_key \<and> \<not> escapePressed attract) \<and>
   \<not> introComplete attract \<and>
   player (update right_key attract) = player (movePlayer right_key attract) \<and>
   enemies (update right_key attract) = enemies (moveEnemies (movePlayer right_key attract)) \<and>
   collectibles (update right_key attract) = collectibles attract \<and>
   etype (hd (enemies crowded)) = Chaser \<and> \<not> visible (player attract) \<and>
   in_field PLAYER_SIZE (hd (enemies crowded)) \<and>
   moveOne 4 (player attract) (\<lambda>_. 0) (hd (enemies crowded)) = (hd (enemies crowded), 0)"
  using movement_inert_when_game_over
          [where s = playing and inp = space_escape_left and e = "hd (enemies crowded)"
             and p = "player attract" and v = 4 and d = "\<lambda>_. 0"]
        movement_inert_when_game_over
          [where s = attract and inp = right_key and e = "hd (enemies crowded)"
             and p = "player attract" and v = 4 and d = "\<lambda>_. 0"]
  by (simp add: playing_def attract_def crowded_def space_escape_left_def right_key_def
      no_keys_def in_field_def GAME_CONSTANTS)

text \<open>
  The claim as stated fails on the title screen: with the intro not complete and
  everything hidden, the right arrow moves the player and the patrol enemy moves.
\<close>

theorem movement_not_inert_counterexample:
  "\<not> introComplete attract \<and> \<not> visible (player attract) \<and>
   list_all (\<lambda>e. \<not> visible e) (enemies attract) \<and>
   pos_x (player attract) = 400 \<and> map pos_x (enemies attract) = [100] \<and>
   pos_x (player (update right_key attract)) = 405 \<and>
   map pos_x (enemies (update right_key attract)) = [514 / 5]"
  apply (simp add: attract_def right_key_def no_keys_def stage_player)
  apply (simp add: stage_enemies)?
  apply (simp add: stage_collect)?
  apply (simp add: stage_damage)?
  done

subsection \<open>C6: the damage of overlapping enemies\<close>

text \<open>
  C6, as amended. In a frame of active gameplay that reaches the damage loop (the escape
  key is not newly pressed and the spacebar is not held), with the health positive, every
  visible enemy that is nearer than \<open>ENEMY_SIZE\<close> (48) to the visible player, at the
  positions after the frame's movement, takes \<open>DAMAGE_PER_ENEMY\<close> (10) off the health,
  each on its own, until the health is no longer positive: the health falls by 10 times
  the number of such enemies, or by 10 times the number of hits that bring it to zero or
  below, whichever is smaller.
\<close>

theorem overlapping_enemies_damage:
  assumes "introComplete s" and "\<not> gameOver s" and "0 < health s"
    and "\<not> (escape_isDown inp \<and> \<not> escapePressed s)" and "\<not> space_isDown inp"
  shows "health (update inp s) =
         health s - DAMAGE_PER_ENEMY *
           min (int (length (filter (touches ENEMY_SIZE (player (movePlayer inp s)))
                               (enemies (collectibleCollisions (moved inp s))))))
               ((health s + 9) div 10)"
proof -
  let ?t = "collectibleCollisions (moved inp s)"
  have u: "update inp s = enemyCollisions ?t"
    using assms by (intro update_moved) simp_all
  have "health (enemyCollisions ?t) =
        health ?t - 10 * min (int (length (filter (touches ENEMY_SIZE (player ?t)) (drop 0 (enemies ?t)))))
                            ((health ?t + 9) div 10)"
    unfolding enemyCollisions_def using assms
    by (simp add: enemy_loop_health del: drop_0)
  then show ?thesis by (simp add: u GAME_CONSTANTS)
qed

theorem overlapping_enemies_damage_witness:
  "introComplete crowded \<and> \<not> gameOver crowded \<and> 0 < health crowded \<and>
   \<not> (escape_isDown no_keys \<and> \<not> escapePressed crowded) \<and> \<not> space_isDown no_keys \<and>
   health crowded = 100 \<and> health (update no_keys crowded) = 80"
proof -
  have e: "enemies (collectibleCollisions (moved no_keys crowded)) =
      [\<lparr>pos_x = 2726 / 25, pos_y = 100, visible = True,
         etype = Chaser, moveCounter = 0, moveDirection = 0\<rparr>,
       \<lparr>pos_x = 100, pos_y = 614 / 5, visible = True,
         etype = Patrol, moveCounter = 1, moveDirection = 1\<rparr>]"
    apply (simp add: moved_def crowded_def no_keys_def stage_player)
    apply (simp add: stage_enemies)?
    apply (simp add: stage_collect)?
    done
  have p: "player (movePlayer no_keys crowded) = \<lparr>pos_x = 100, pos_y = 100, visible = True\<rparr>"
    by (simp add: crowded_def no_keys_def stage_player)
  show ?thesis
    using overlapping_enemies_damage [of crowded no_keys]
    by (simp add: e p touches_def Distance_less_iff power2_eq_square GAME_CONSTANTS)
       (simp add: crowded_def no_keys_def)
qed

text \<open>
  The claim as stated fails when the spacebar is held: two visible enemies overlap the
  visible player in active gameplay and the frame leaves the health as it was.
\<close>

theorem spacebar_damage_counterexample:
  "introComplete crowded \<and> \<not> gameOver crowded \<and>
   touches ENEMY_SIZE (player crowded) (enemies crowded ! 0) \<and>
   touches ENEMY_SIZE (player crowded) (enemies crowded ! 1) \<and>
   player (update space_only crowded) = player crowded \<and>
   enemies (update space_only crowded) = enemies crowded \<and>
   health (update space_only crowded) = health crowded"
  by (simp add: crowded_def space_only_def no_keys_def update_def movePlayer_def Clamp_def
      Let_def touches_def Distance_less_iff GAME_CONSTANTS)

subsection \<open>C3: the end of the game\<close>

text \<open>
  C3. When a frame brings the health from above zero to zero or below, then at the end
  of that frame the game is over, the player, every enemy and every collectible are
  hidden, the game-over screen has been shown exactly once, and no enemy has hit after the
  fatal one (the health is above \<open>- DAMAGE_PER_ENEMY\<close>); after any further frames the
  game is still over, score, health and round are what they were at the end of that
  frame, and no further game-over screen has been shown.
\<close>

theorem game_over_once_and_final:
  assumes "0 < health s" and "health (update inp s) \<le> 0"
  shows "gameOver (update inp s) \<and>
         \<not> visible (player (update inp s)) \<and>
         list_all (\<lambda>e. \<not> visible e) (enemies (update inp s)) \<and>
         list_all (\<lambda>c. \<not> visible c) (collectibles (update inp s)) \<and>
         count_list (events (update inp s)) GameOverScreen =
           count_list (events s) GameOverScreen + 1 \<and>
         - DAMAGE_PER_ENEMY < health (update inp s) \<and>
         gameOver (frames inps (update inp s)) \<and>
         score (frames inps (update inp s)) = score (update inp s) \<and>
         health (frames inps (update inp s)) = health (update inp s) \<and>
         round_no (frames inps (update inp s)) = round_no (update inp s) \<and>
         count_list (events (frames inps (update inp s))) GameOverScreen =
           count_list (events (update inp s)) GameOverScreen"
proof -
  have ne: "health (update inp s) \<noteq> health s" using assms by simp
  have r1: "\<not> gameOver s"
    using ne update_health_early [of s inp] by blast
  have r2: "\<not> (escape_isDown inp \<and> \<not> escapePressed s)"
    using ne update_health_early [of s inp] by blast
  have r3: "\<not> (space_isDown inp \<and> introComplete s)"
    using ne update_health_early [of s inp] by blast
  let ?t = "collectibleCollisions (moved inp s)"
  have u: "update inp s = enemyCollisions ?t"
    using r1 r2 r3 by (rule update_moved)
  let ?c = "count_list (events s) GameOverScreen"
  let ?J = "\<lambda>t. (\<not> gameOver t \<and> 0 < health t \<and> count_list (events t) GameOverScreen = ?c) \<or>
           (gameOver t \<and> health t \<le> 0 \<and> - DAMAGE_PER_ENEMY < health t \<and>
            \<not> visible (player t) \<and> list_all (\<lambda>e. \<not> visible e) (enemies t) \<and>
            list_all (\<lambda>e. \<not> visible e) (collectibles t) \<and>
            count_list (events t) GameOverScreen = ?c + 1)"
  have "?J (enemyCollisions ?t)"
  proof (rule enemyCollisions_inv [where P = ?J])
    show "?J ?t" using r1 assms(1) by simp
    show "\<And>j u. ?J u \<Longrightarrow> ?J (enemyCallback j u)" by (rule enemy_loop_game_over)
  qed
  then have fin: "gameOver (update inp s) \<and> - DAMAGE_PER_ENEMY < health (update inp s) \<and>
            \<not> visible (player (update inp s)) \<and>
            list_all (\<lambda>e. \<not> visible e) (enemies (update inp s)) \<and>
            list_all (\<lambda>e. \<not> visible e) (collectibles (update inp s)) \<and>
            count_list (events (update inp s)) GameOverScreen = ?c + 1"
    using assms(2) unfolding u by auto
  then have "gameOver (update inp s)" by simp
  from frames_after_game_over [OF this, of inps] fin show ?thesis by simp
qed

theorem game_over_once_and_final_witness:
  "0 < health dying \<and> health (update no_keys dying) \<le> 0 \<and>
   gameOver (update no_keys dying) \<and>
   \<not> visible (player (update no_keys dying)) \<and>
   count_list (events (update no_keys dying)) GameOverScreen = 1 \<and>
   - DAMAGE_PER_ENEMY < health (update no_keys dying) \<and>
   score (frames [no_keys, right_key] (update no_keys dying)) = score (update no_keys dying) \<and>
   health (frames [no_keys, right_key] (update no_keys dying)) = health (update no_keys dying) \<and>
   round_no (frames [no_keys, right_key] (update no_keys dying)) = round_no (update no_keys dying)"
proof -
  have h: "health (update no_keys dying) = 0"
    apply (simp add: dying_def crowded_def no_keys_def stage_player)
    apply (simp add: stage_enemies)?
    apply (simp add: stage_collect)?
    apply (simp add: stage_damage)?
    done
  have p: "0 < health dying" "count_list (events dying) GameOverScreen = 0"
    by (simp_all add: dying_def crowded_def)
  show ?thesis
    using game_over_once_and_final [of dying no_keys "[no_keys, right_key]"] h p
    by simp
qed

subsection \<open>C1: collecting\<close>

text \<open>
  C1, as amended. In a frame of active gameplay that reaches the collision checks (the
  escape key is not newly pressed and the spacebar is not held), take the collectibles
  that are visible and nearer than \<open>COLLECTIBLE_SIZE\<close> (32) to the visible player, at the
  player's position after the frame's movement. If no two of them are neighbours in the
  group's array, each of them is marked invisible and taken out of the group, the score
  rises by \<open>SCORE_PER_COLLECTIBLE\<close> (10) for each, and the others stay in the group
  (unless none stays, which advances the round). With the player at \<open>(100, 100)\<close> and a
  collectible at \<open>(105, 100)\<close> the collectible is collected and the score goes from 0 to
  10.
\<close>

theorem collectibles_in_reach_collected:
  assumes "introComplete s" and "\<not> gameOver s"
    and "\<not> (escape_isDown inp \<and> \<not> escapePressed s)" and "\<not> space_isDown inp"
    and "no_adjacent (touches COLLECTIBLE_SIZE (player (movePlayer inp s))) (collectibles s)"
  shows "detached (update inp s) = detached s @
           map (\<lambda>c. c\<lparr>visible := False\<rparr>)
             (filter (touches COLLECTIBLE_SIZE (player (movePlayer inp s))) (collectibles s)) \<and>
         score (update inp s) = score s + SCORE_PER_COLLECTIBLE *
           int (length (filter (touches COLLECTIBLE_SIZE (player (movePlayer inp s))) (collectibles s))) \<and>
         (filter (Not \<circ> touches COLLECTIBLE_SIZE (player (movePlayer inp s))) (collectibles s) \<noteq> [] \<longrightarrow>
            collectibles (update inp s) =
              filter (Not \<circ> touches COLLECTIBLE_SIZE (player (movePlayer inp s))) (collectibles s) \<or>
            collectibles (update inp s) =
              setVisible False
                (filter (Not \<circ> touches COLLECTIBLE_SIZE (player (movePlayer inp s))) (collectibles s)))"
proof -
  let ?t = "moved inp s"
  have u: "update inp s = enemyCollisions (collectibleCollisions ?t)"
    using assms by (intro update_moved) simp_all
  have t: "introComplete ?t" "\<not> gameOver ?t"
    "no_adjacent (touches COLLECTIBLE_SIZE (player ?t)) (collectibles ?t)"
    using assms by simp_all
  note cf = collect_frame [OF t]
  show ?thesis
    using cf enemyCollisions_groups [of "collectibleCollisions ?t"]
    by (auto simp: u)
qed

theorem collectibles_in_reach_collected_witness:
  "introComplete playing \<and> \<not> gameOver playing \<and>
   \<not> (escape_isDown no_keys \<and> \<not> escapePressed playing) \<and> \<not> space_isDown no_keys \<and>
   no_adjacent (touches COLLECTIBLE_SIZE (player (movePlayer no_keys playing)))
     (collectibles playing) \<and>
   player (movePlayer no_keys playing) = \<lparr>pos_x = 100, pos_y = 100, visible = True\<rparr> \<and>
   collectibles playing = [\<lparr>pos_x = 105, pos_y = 100, visible = True\<rparr>,
                           \<lparr>pos_x = 500, pos_y = 500, visible = True\<rparr>] \<and>
   score playing = 0 \<and> score (update no_keys playing) = 10 \<and>
   detached (update no_keys playing) = [\<lparr>pos_x = 105, pos_y = 100, visible = False\<rparr>] \<and>
   (collectibles (update no_keys playing) = [\<lparr>pos_x = 500, pos_y = 500, visible = True\<rparr>] \<or>
    collectibles (update no_keys playing) = [\<lparr>pos_x = 500, pos_y = 500, visible = False\<rparr>])"
proof -
  have p: "player (movePlayer no_keys playing) = \<lparr>pos_x = 100, pos_y = 100, visible = True\<rparr>"
    by (simp add: playing_def no_keys_def stage_player)
  have c: "collectibles playing = [\<lparr>pos_x = 105, pos_y = 100, visible = True\<rparr>,
                                   \<lparr>pos_x = 500, pos_y = 500, visible = True\<rparr>]"
    by (simp add: playing_def)
  have t: "touches COLLECTIBLE_SIZE \<lparr>pos_x = 100, pos_y = 100, visible = True\<rparr>
             \<lparr>pos_x = 105, pos_y = 100, visible = True\<rparr>"
          "\<not> touches COLLECTIBLE_SIZE \<lparr>pos_x = 100, pos_y = 100, visible = True\<rparr>
             \<lparr>pos_x = 500, pos_y = 500, visible = True\<rparr>"
    by (simp_all add: touches_def Distance_less_iff power2_eq_square GAME_CONSTANTS)
  have h: "introComplete playing" "\<not> gameOver playing" "\<not> escapePressed playing"
    "score playing = 0" "detached playing = []"
    by (simp_all add: playing_def)
  have k: "\<not> escape_isDown no_keys" "\<not> space_isDown no_keys"
    by (simp_all add: no_keys_def)
  show ?thesis
    using collectibles_in_reach_collected [of playing no_keys]
    by (simp add: p c t h k setVisible_def SCORE_PER_COLLECTIBLE_def)
qed

text \<open>
  The claim as stated fails when the spacebar is held: in active gameplay a visible
  collectible is nearer than 32 to the visible player and the frame collects nothing.
\<close>

theorem spacebar_collect_counterexample:
  "introComplete playing \<and> \<not> gameOver playing \<and>
   touches COLLECTIBLE_SIZE (player playing) (collectibles playing ! 0) \<and>
   player (update space_only playing) = player playing \<and>
   collectibles (update space_only playing) = collectibles playing \<and>
   score (update space_only playing) = score playing"
  by (simp add: playing_def space_only_def no_keys_def update_def movePlayer_def Clamp_def
      Let_def touches_def Distance_less_iff GAME_CONSTANTS)

text \<open>
  What the hypothesis on neighbours leaves aside: the callback removes the collected
  sprite from the array that \<^verbatim>\<open>forEach\<close> is walking, so the next collectible
  moves to the index just visited and the loop passes over it. Of two neighbours in
  reach the frame collects the first and leaves the second in the group.
\<close>

lemma neighbour_in_reach_waits:
  "touches COLLECTIBLE_SIZE (player two_in_reach) (collectibles two_in_reach ! 0) \<and>
   touches COLLECTIBLE_SIZE (player two_in_reach) (collectibles two_in_reach ! 1) \<and>
   collectibles (update no_keys two_in_reach) =
     [\<lparr>pos_x = 106, pos_y = 100, visible = True\<rparr>, \<lparr>pos_x = 500, pos_y = 500, visible = True\<rparr>] \<and>
   score (update no_keys two_in_reach) = score two_in_reach + 10"
  apply (simp add: two_in_reach_def playing_def no_keys_def stage_player touches_def
      Distance_less_iff)
  apply (simp add: stage_enemies)?
  apply (simp add: stage_collect)?
  apply (simp add: stage_damage)?
  done

subsection \<open>C2: the round advance\<close>

text \<open>
  C2. In every frame in which a collection empties the collectibles group, that is, a
  frame of active gameplay that reaches the collision checks with one collectible left
  in the group, visible and nearer than \<open>COLLECTIBLE_SIZE\<close> to the visible player: the
  round rises by exactly 1 and the enemy speed by 1, the new-round sound is played once,
  the collected sprite is hidden and out of the group, and the group ends with exactly
  \<open>COLLECTIBLE_COUNT\<close> (10) collectibles, each at the position that the next draws give
  within the spawn range. If the new round is at least 2, exactly one enemy is added
  after the enemies that were there, of the type that \<^verbatim>\<open>RND.pick\<close> draws from
  \<open>ENEMY_TYPES\<close> and at the position that the next draws give within its spawn range;
  otherwise no enemy is added.
\<close>

theorem last_collectible_advances_round:
  assumes "introComplete s" and "\<not> gameOver s"
    and "\<not> (escape_isDown inp \<and> \<not> escapePressed s)" and "\<not> space_isDown inp"
    and "collectibles s = [c]"
    and "touches COLLECTIBLE_SIZE (player (movePlayer inp s)) c"
  shows "round_no (update inp s) = round_no s + 1 \<and>
         enemySpeed (update inp s) = enemySpeed s + 1 \<and>
         count_list (events (update inp s)) NewRoundSound =
           count_list (events s) NewRoundSound + 1 \<and>
         detached (update inp s) = detached s @ [c\<lparr>visible := False\<rparr>] \<and>
         length (collectibles (update inp s)) = COLLECTIBLE_COUNT \<and>
         map pos_x (collectibles (update inp s)) =
           map (\<lambda>i. real_of_int (Between COLLECTIBLE_SIZE (WIDTH - COLLECTIBLE_SIZE)
                                   (rnd s (draws (moved inp s) + 2 * i))))
               [0..<COLLECTIBLE_COUNT] \<and>
         map pos_y (collectibles (update inp s)) =
           map (\<lambda>i. real_of_int (Between COLLECTIBLE_SIZE (HEIGHT - COLLECTIBLE_SIZE)
                                   (rnd s (draws (moved inp s) + 2 * i + 1))))
               [0..<COLLECTIBLE_COUNT] \<and>
         list_all (in_field COLLECTIBLE_SIZE) (collectibles (update inp s)) \<and>
         map etype (enemies (update inp s)) =
           map etype (enemies s) @
           (if 2 \<le> round_no s + 1
            then [pick ENEMY_TYPES (rnd s (draws (moved inp s) + 2 * COLLECTIBLE_COUNT))]
            else []) \<and>
         map pos_x (enemies (update inp s)) =
           map pos_x (enemies (moved inp s)) @
           (if 2 \<le> round_no s + 1
            then [real_of_int (Between ENEMY_SIZE (WIDTH - ENEMY_SIZE)
                                 (rnd s (draws (moved inp s) + 2 * COLLECTIBLE_COUNT + 1)))]
            else []) \<and>
         map pos_y (enemies (update inp s)) =
           map pos_y (enemies (moved inp s)) @
           (if 2 \<le> round_no s + 1
            then [real_of_int (Between ENEMY_SIZE (HEIGHT - ENEMY_SIZE)
                                 (rnd s (draws (moved inp s) + 2 * COLLECTIBLE_COUNT + 2)))]
            else [])"
proof -
  let ?t = "moved inp s"
  let ?t1 = "?t\<lparr>detached := detached ?t @ [c\<lparr>visible := False\<rparr>],
                 collectibles := [],
                 score := score ?t + SCORE_PER_COLLECTIBLE,
                 events := events ?t @ [CollectSound]\<rparr>"
  have u: "update inp s = enemyCollisions (collectibleCollisions ?t)"
    using assms by (intro update_moved) simp_all
  have cc: "collectibleCollisions ?t = newRound ?t1"
    by (rule last_collectible_collected) (use assms in simp_all)
  obtain cs es where n: "newRound ?t1 =
       ?t1\<lparr>round_no := round_no ?t1 + 1, enemySpeed := enemySpeed ?t1 + 1,
         events := events ?t1 @ [NewRoundSound],
         collectibles := collectibles ?t1 @ cs, enemies := enemies ?t1 @ es,
         draws := draws ?t1 + 2 * COLLECTIBLE_COUNT + 4 * length es\<rparr>"
     "list_all (in_field COLLECTIBLE_SIZE) cs"
    using newRound_eq [of ?t1] by blast
  have f: "list_all (in_field COLLECTIBLE_SIZE) (collectibles (newRound ?t1))"
    unfolding n(1) using n(2) by simp
  have x: "round_no (newRound ?t1) = round_no s + 1"
    "enemySpeed (newRound ?t1) = enemySpeed s + 1"
    "count_list (events (newRound ?t1)) NewRoundSound = count_list (events s) NewRoundSound + 1"
    "detached (newRound ?t1) = detached s @ [c\<lparr>visible := False\<rparr>]"
    by simp_all
  have cl: "collectibles (newRound ?t1) =
      map (\<lambda>i. \<lparr>pos_x = real_of_int (Between COLLECTIBLE_SIZE (WIDTH - COLLECTIBLE_SIZE)
                                         (rnd s (draws ?t + 2 * i))),
                 pos_y = real_of_int (Between COLLECTIBLE_SIZE (HEIGHT - COLLECTIBLE_SIZE)
                                         (rnd s (draws ?t + 2 * i + 1))),
                 visible = True\<rparr>) [0..<COLLECTIBLE_COUNT]"
    by (simp add: newRound_exact Let_def)
  have en: "enemies (newRound ?t1) = enemies ?t @
      (if 2 \<le> round_no s + 1
       then [\<lparr>pos_x = real_of_int (Between ENEMY_SIZE (WIDTH - ENEMY_SIZE)
                                       (rnd s (draws ?t + 2 * COLLECTIBLE_COUNT + 1))),
              pos_y = real_of_int (Between ENEMY_SIZE (HEIGHT - ENEMY_SIZE)
                                       (rnd s (draws ?t + 2 * COLLECTIBLE_COUNT + 2))),
              visible = True,
              etype = pick ENEMY_TYPES (rnd s (draws ?t + 2 * COLLECTIBLE_COUNT)),
              moveCounter = 0,
              moveDirection = Between 0 3 (rnd s (draws ?t + 2 * COLLECTIBLE_COUNT + 3))\<rparr>]
       else [])"
    by (simp add: newRound_exact Let_def)
  have px: "map pos_x (collectibles (newRound ?t1)) =
           map (\<lambda>i. real_of_int (Between COLLECTIBLE_SIZE (WIDTH - COLLECTIBLE_SIZE)
                                   (rnd s (draws ?t + 2 * i)))) [0..<COLLECTIBLE_COUNT]"
    and py: "map pos_y (collectibles (newRound ?t1)) =
           map (\<lambda>i. real_of_int (Between COLLECTIBLE_SIZE (HEIGHT - COLLECTIBLE_SIZE)
                                   (rnd s (draws ?t + 2 * i + 1)))) [0..<COLLECTIBLE_COUNT]"
    and ln: "length (collectibles (newRound ?t1)) = COLLECTIBLE_COUNT"
    unfolding cl by (simp_all add: comp_def)
  show ?thesis
    unfolding u cc
    using x px py ln f en by (simp add: enemyCollisions_kept)
qed

theorem last_collectible_advances_round_witness:
  "introComplete last_of_round_3 \<and> \<not> gameOver last_of_round_3 \<and>
   \<not> (escape_isDown no_keys \<and> \<not> escapePressed last_of_round_3) \<and> \<not> space_isDown no_keys \<and>
   collectibles last_of_round_3 = [\<lparr>pos_x = 305, pos_y = 300, visible = True\<rparr>] \<and>
   touches COLLECTIBLE_SIZE (player (movePlayer no_keys last_of_round_3))
     \<lparr>pos_x = 305, pos_y = 300, visible = True\<rparr> \<and>
   round_no last_of_round_3 = 3 \<and> round_no (update no_keys last_of_round_3) = 4 \<and>
   enemySpeed last_of_round_3 = 6 \<and> enemySpeed (update no_keys last_of_round_3) = 7 \<and>
   count_list (events (update no_keys last_of_round_3)) NewRoundSound = 1 \<and>
   detached (update no_keys last_of_round_3) = [\<lparr>pos_x = 305, pos_y = 300, visible = False\<rparr>] \<and>
   length (collectibles (update no_keys last_of_round_3)) = 10 \<and>
   map etype (enemies last_of_round_3) = [Random] \<and>
   map etype (enemies (update no_keys last_of_round_3)) = [Random, Chaser] \<and>
   map pos_x (enemies (update no_keys last_of_round_3)) = [594, 71] \<and>
   map pos_y (enemies (update no_keys last_of_round_3)) = [395, 72]"
proof -
  have m: "draws (moved no_keys last_of_round_3) = 2"
    "map pos_x (enemies (moved no_keys last_of_round_3)) = [594]"
    "map pos_y (enemies (moved no_keys last_of_round_3)) = [395]"
    apply (simp_all add: moved_def last_of_round_3_def no_keys_def movePlayer_def Clamp_def Let_def
        GAME_CONSTANTS)
    apply (simp_all add: stage_enemies)
    done
  have p: "player (movePlayer no_keys last_of_round_3) = \<lparr>pos_x = 300, pos_y = 300, visible = True\<rparr>"
    by (simp add: last_of_round_3_def no_keys_def stage_player)
  have t: "touches COLLECTIBLE_SIZE \<lparr>pos_x = 300, pos_y = 300, visible = True\<rparr>
             \<lparr>pos_x = 305, pos_y = 300, visible = True\<rparr>"
    by (simp add: touches_def Distance_less_iff power2_eq_square GAME_CONSTANTS)
  have h: "introComplete last_of_round_3" "\<not> gameOver last_of_round_3"
    "\<not> escapePressed last_of_round_3" "round_no last_of_round_3 = 3"
    "enemySpeed last_of_round_3 = 6" "events last_of_round_3 = []" "detached last_of_round_3 = []"
    "collectibles last_of_round_3 = [\<lparr>pos_x = 305, pos_y = 300, visible = True\<rparr>]"
    "map etype (enemies last_of_round_3) = [Random]" "rnd last_of_round_3 = (\<lambda>n. n)"
    by (simp_all add: last_of_round_3_def)
  have k: "\<not> escape_isDown no_keys" "\<not> space_isDown no_keys"
    by (simp_all add: no_keys_def)
  have pk: "pick ENEMY_TYPES 22 = Chaser" "Between ENEMY_SIZE (WIDTH - ENEMY_SIZE) 23 = 71"
    "Between ENEMY_SIZE (HEIGHT - ENEMY_SIZE) 24 = 72"
    by (simp_all add: pick_def Between_def GAME_CONSTANTS)
  show ?thesis
    using last_collectible_advances_round
            [where s = last_of_round_3 and inp = no_keys
               and c = "\<lparr>pos_x = 305, pos_y = 300, visible = True\<rparr>"]
    by (simp add: m p t h k pk COLLECTIBLE_COUNT_def)
qed

text \<open>
  No other frame advances the round: a frame that plays the new-round sound is a frame
  of active gameplay that reaches the collision checks with exactly one collectible in
  the group, in reach of the player.
\<close>

lemma new_round_only_after_last_collectible:
  assumes "count_list (events (update inp s)) NewRoundSound \<noteq> count_list (events s) NewRoundSound"
  shows "introComplete s \<and> \<not> gameOver s \<and> \<not> (escape_isDown inp \<and> \<not> escapePressed s) \<and>
         \<not> space_isDown inp \<and>
         (\<exists>c. collectibles s = [c] \<and> touches COLLECTIBLE_SIZE (player (movePlayer inp s)) c)"
proof -
  have r: "\<not> gameOver s" "\<not> (escape_isDown inp \<and> \<not> escapePressed s)"
    "\<not> (space_isDown inp \<and> introComplete s)"
    using assms update_new_round_early [of s inp] by blast+
  let ?t = "moved inp s"
  have u: "update inp s = enemyCollisions (collectibleCollisions ?t)"
    using r by (rule update_moved)
  have "count_list (events (collectibleCollisions ?t)) NewRoundSound \<noteq>
        count_list (events ?t) NewRoundSound"
    using assms by (simp add: u)
  then have "introComplete ?t \<and> \<not> gameOver ?t \<and>
      (\<exists>c. collectibles ?t = [c] \<and> touches COLLECTIBLE_SIZE (player ?t) c)"
    using collect_loop_trigger [of ?t] by blast
  then show ?thesis using r by auto
qed

subsection \<open>C5: the patrol\<close>

text \<open>
  C5. The claim, like the comment in the source, has a patrol enemy re-roll its facing
  every 60 frames. The code counts before it tests \<^verbatim>\<open>moveCounter > 60\<close>: a patrol
  enemy with \<^verbatim>\<open>moveCounter\<close> 0 and facing 3 still has facing 3, and \<^verbatim>\<open>moveCounter\<close>
  60, after 60 frames; the 61st frame re-rolls the facing (to 1, the draw) and resets the
  counter.
\<close>

theorem patrol_rerolls_in_61st_frame:
  "map moveCounter (enemies (patrol_after 0)) = [0] \<and>
   map moveDirection (enemies (patrol_after 0)) = [3] \<and>
   map moveCounter (enemies (frames (replicate 60 no_keys) (patrol_after 0))) = [60] \<and>
   map moveDirection (enemies (frames (replicate 60 no_keys) (patrol_after 0))) = [3] \<and>
   map moveCounter (enemies (frames (replicate 61 no_keys) (patrol_after 0))) = [0] \<and>
   map moveDirection (enemies (frames (replicate 61 no_keys) (patrol_after 0))) = [1]"
proof -
  have a: "frames (replicate 60 no_keys) (patrol_after 0) = patrol_after 60"
    using patrol_frames [of 0 60] by simp
  have "replicate (60 + 1) no_keys = replicate 60 no_keys @ replicate 1 no_keys"
    by (rule replicate_add)
  then have "replicate 61 no_keys = replicate 60 no_keys @ [no_keys]"
    by simp
  then have b: "frames (replicate 61 no_keys) (patrol_after 0) = update no_keys (patrol_after 60)"
    by (simp add: frames_append a)
  show ?thesis
    unfolding a b using patrol_61st_frame by (simp add: patrol_after_def)
qed

theorem patrol_rerolls_in_61st_frame_witness:
  "map moveDirection (enemies (frames (replicate 60 no_keys) (patrol_after 0))) = [3] \<and>
   map moveDirection (enemies (frames (replicate 61 no_keys) (patrol_after 0))) = [1]"
  using patrol_rerolls_in_61st_frame by simp

end
